theory Spec2Isabelle
  imports Main "HOL-Library.Sublist" "HOL-Library.Word"
begin

unbundle bit_operations_syntax

section \<open>Text\<close>

text \<open>
  Python text is modelled as \<^typ>\<open>string\<close>, one \<^typ>\<open>char\<close> per character with code
  below 256. The few symbols of the scripts' message literals beyond that range (the emoji
  in front of some report lines) are written as their UTF-8 bytes.
\<close>

definition TAB :: char where
  "TAB = CHR 0x09"

definition NL :: char where
  "NL = CHR 0x0A"

text \<open>
  The whitespace of \<^verbatim>\<open>str.strip()\<close> and of the pattern class \<^verbatim>\<open>\s\<close> on text:
  tab, line feed, vertical tab, form feed, carriage return, the four separators
  0x1C..0x1F, space, and (below 256) next-line 0x85 and no-break space 0xA0.
\<close>

definition is_space :: "char \<Rightarrow> bool" where
  "is_space c =
     (let n = (of_char c :: nat)
      in (9 \<le> n \<and> n \<le> 13) \<or> (28 \<le> n \<and> n \<le> 32) \<or> n = 133 \<or> n = 160)"

definition strip :: "string \<Rightarrow> string" where
  "strip s = rev (dropWhile is_space (rev (dropWhile is_space s)))"

text \<open>\<^verbatim>\<open>sep.join(parts)\<close>.\<close>

fun join :: "string \<Rightarrow> string list \<Rightarrow> string" where
  "join sep [] = []"
| "join sep [x] = x"
| "join sep (x # y # ys) = x @ sep @ join sep (y # ys)"

text \<open>\<^verbatim>\<open>needle in text\<close>: the substring test.\<close>

fun contains :: "string \<Rightarrow> string \<Rightarrow> bool" where
  "contains needle [] = (needle = [])"
| "contains needle (c # cs) = (prefix needle (c # cs) \<or> contains needle cs)"

section \<open>The scanner invoker: semgrep_standalone.py\<close>

subsection \<open>The process and its environment\<close>

text \<open>
  Exceptions of the calls the script guards. \<^verbatim>\<open>TimeoutExpired\<close> is a
  \<^verbatim>\<open>SubprocessError\<close>; the constructor \<open>SubprocessError\<close> stands for the other ones,
  \<open>OtherException\<close> for any other \<^verbatim>\<open>Exception\<close>. The text is \<^verbatim>\<open>str(e)\<close>.
\<close>

datatype exn =
    TimeoutExpired
  | SubprocessError string
  | FileNotFoundError string
  | OtherException string

record completed =
  returncode :: int
  stdout :: string
  stderr :: string

text \<open>
  What the script reads from outside itself. \<open>run_proc cmd timeout dir\<close> is what
  \<^verbatim>\<open>subprocess.run(cmd, capture_output=True, text=True, timeout=timeout)\<close> does when
  started in directory \<open>dir\<close>; \<open>enter_dir dir path\<close> is the directory
  \<^verbatim>\<open>os.chdir(path)\<close> leads to from \<open>dir\<close>, or the exception it raises;
  \<open>cwd_fault dir\<close> is the exception \<^verbatim>\<open>os.getcwd()\<close> raises in \<open>dir\<close>, if any;
  \<open>stdout_fault line\<close> is the exception \<^verbatim>\<open>print(line)\<close> raises, if any (a
  \<^verbatim>\<open>UnicodeEncodeError\<close> when the encoding of the standard output has no code for a
  character of the line, a \<^verbatim>\<open>BrokenPipeError\<close> when nobody reads it).
\<close>

record env =
  argv :: "string list"
  isfile :: "string \<Rightarrow> bool"
  access_x :: "string \<Rightarrow> bool"
  path_exists :: "string \<Rightarrow> bool"
  expanduser :: "string \<Rightarrow> string"
  popen_read :: "string \<Rightarrow> string"
  run_proc :: "string list \<Rightarrow> nat \<Rightarrow> string \<Rightarrow> exn + completed"
  enter_dir :: "string \<Rightarrow> string \<Rightarrow> exn + string"
  cwd_fault :: "string \<Rightarrow> exn option"
  stdout_fault :: "string \<Rightarrow> exn option"

datatype spawn = Run "string list" nat | Popen string

text \<open>
  The state of the process: its working directory, the child processes it has started so
  far, and the lines it has printed.
\<close>

record pstate =
  cwd :: string
  spawned :: "spawn list"
  printed :: "string list"

definition subprocess_run :: "env \<Rightarrow> string list \<Rightarrow> nat \<Rightarrow> pstate \<Rightarrow> (exn + completed) \<times> pstate" where
  "subprocess_run e cmd timeout s =
     (run_proc e cmd timeout (cwd s), s\<lparr>spawned := spawned s @ [Run cmd timeout]\<rparr>)"

definition os_popen_read :: "env \<Rightarrow> string \<Rightarrow> pstate \<Rightarrow> string \<times> pstate" where
  "os_popen_read e c s = (popen_read e c, s\<lparr>spawned := spawned s @ [Popen c]\<rparr>)"

definition os_getcwd :: "env \<Rightarrow> pstate \<Rightarrow> exn + string" where
  "os_getcwd e s = (case cwd_fault e (cwd s) of Some x \<Rightarrow> Inl x | None \<Rightarrow> Inr (cwd s))"

definition os_chdir :: "env \<Rightarrow> string \<Rightarrow> pstate \<Rightarrow> exn + pstate" where
  "os_chdir e p s = (case enter_dir e (cwd s) p of Inl x \<Rightarrow> Inl x | Inr d \<Rightarrow> Inr (s\<lparr>cwd := d\<rparr>))"

text \<open>
  \<^verbatim>\<open>print(line)\<close>: the exception it raises, if any, and the state; a line that raises
  is not printed. \<open>print_lines\<close> is a sequence of \<^verbatim>\<open>print\<close> statements: the first
  exception ends it.
\<close>

definition print :: "env \<Rightarrow> string \<Rightarrow> pstate \<Rightarrow> exn option \<times> pstate" where
  "print e l s =
     (case stdout_fault e l of
        Some x \<Rightarrow> (Some x, s)
      | None \<Rightarrow> (None, s\<lparr>printed := printed s @ [l]\<rparr>))"

fun print_lines :: "env \<Rightarrow> string list \<Rightarrow> pstate \<Rightarrow> exn option \<times> pstate" where
  "print_lines e [] s = (None, s)"
| "print_lines e (l # ls) s =
     (case print e l s of
        (Some x, s') \<Rightarrow> (Some x, s')
      | (None, s') \<Rightarrow> print_lines e ls s')"

subsection \<open>find_system_semgrep\<close>

definition possible_paths :: "env \<Rightarrow> string list" where
  "possible_paths e =
     [''/opt/homebrew/bin/semgrep'',
      ''/usr/local/bin/semgrep'',
      expanduser e ''~/.local/bin/semgrep'',
      ''/usr/bin/semgrep'']"

definition is_executable_file :: "env \<Rightarrow> string \<Rightarrow> bool" where
  "is_executable_file e p = (isfile e p \<and> access_x e p)"

text \<open>
  After the candidate list, the lookup \<^verbatim>\<open>which semgrep\<close> with a timeout of 5 seconds.
  The three exceptions of the \<^verbatim>\<open>except\<close> clause are passed over; any other one leaves
  the function.
\<close>

definition find_system_semgrep :: "env \<Rightarrow> pstate \<Rightarrow> (exn + string option) \<times> pstate" where
  "find_system_semgrep e s =
     (case find (is_executable_file e) (possible_paths e) of
        Some p \<Rightarrow> (Inr (Some p), s)
      | None \<Rightarrow>
          (case subprocess_run e [''which'', ''semgrep''] 5 s of
             (Inr r, s') \<Rightarrow>
               (if returncode r = 0 \<and> strip (stdout r) \<noteq> [] then
                  (let semgrep_path = strip (stdout r)
                   in if is_executable_file e semgrep_path then (Inr (Some semgrep_path), s')
                      else (Inr None, s'))
                else (Inr None, s'))
           | (Inl TimeoutExpired, s') \<Rightarrow> (Inr None, s')
           | (Inl (SubprocessError m), s') \<Rightarrow> (Inr None, s')
           | (Inl (FileNotFoundError m), s') \<Rightarrow> (Inr None, s')
           | (Inl (OtherException m), s') \<Rightarrow> (Inl (OtherException m), s')))"

subsection \<open>get_installation_instructions\<close>

definition instructions_head :: string where
  "instructions_head = concat
     [''\<newline>'',
      [CHR 0xF0, CHR 0x9F, CHR 0x94, CHR 0x8D], '' Semgrep Security Scanner Analysis Report\<newline>'',
      ''==========================================\<newline>'',
      ''\<newline>'',
      ''Generated on: '']"

definition instructions_project :: string where
  "instructions_project = ''\<newline>Project directory: ''"

definition instructions_body :: string where
  "instructions_body = concat
     [''\<newline>'',
      ''\<newline>'',
      ''To use Semgrep security scanning, please install Semgrep on your system:\<newline>'',
      ''\<newline>'',
      ''Option 1 - Using pip:\<newline>'',
      ''  pip install semgrep\<newline>'',
      ''\<newline>'',
      ''Option 2 - Using Homebrew:\<newline>'',
      ''  brew install semgrep\<newline>'',
      ''\<newline>'',
      ''Option 3 - Using conda:\<newline>'',
      ''  conda install -c conda-forge semgrep\<newline>'',
      ''\<newline>'',
      ''After installation, you can run security scans on your iOS projects.\<newline>'',
      ''\<newline>'',
      ''For more information, visit: https://semgrep.dev/docs/getting-started/\<newline>'',
      ''\<newline>'',
      ''Note: This app provides a convenient interface for Semgrep scanning.\<newline>'',
      ''      The actual security analysis is performed by Semgrep itself.\<newline>'',
      ''\<newline>'',
      ''To run a comprehensive security scan manually, use:\<newline>'',
      ''  # JSON output for programmatic processing:\<newline>'',
      ''  semgrep scan --config p/swift --config p/owasp-top-ten --config p/secrets --json --verbose . > semgrep_results.json\<newline>'',
      ''\<newline>'',
      ''  # Human-readable output:\<newline>'',
      ''  semgrep scan --config p/swift --config p/owasp-top-ten --config p/secrets --verbose . > semgrep_results.txt\<newline>'',
      ''\<newline>'',
      ''  # This will scan all files in the current directory with:\<newline>'',
      ''    - Swift-specific security rules\<newline>'',
      ''    - OWASP Top 10 security vulnerabilities\<newline>'',
      ''    - Secret detection (API keys, passwords, etc.)\<newline>'',
      ''    - Git-tracked files only (recommended for performance)\<newline>'',
      ''\<newline>'',
      [CHR 0xE2, CHR 0x9D, CHR 0x8C], '' Semgrep not found or not executable.\<newline>'',
      ''Please install Semgrep or ensure it'', [CHR 0x27], ''s in your PATH.\<newline>'']"

text \<open>
  The template filled by \<^verbatim>\<open>format\<close>: the date printed by the \<^verbatim>\<open>date\<close> command and
  the first command-line argument, or the working directory when there is none.
\<close>

definition get_installation_instructions :: "env \<Rightarrow> pstate \<Rightarrow> string \<times> pstate" where
  "get_installation_instructions e s =
     (case os_popen_read e ''date'' s of
        (d, s') \<Rightarrow>
          (instructions_head @ strip d @ instructions_project
             @ (if length (argv e) > 1 then argv e ! 1 else cwd s') @ instructions_body, s'))"

subsection \<open>run_semgrep_scan\<close>

text \<open>The result dictionary; a key the script leaves out is \<open>None\<close>.\<close>

record scan_result =
  success :: bool
  error :: "string option"
  output_text :: string
  command :: "string option"
  return_code :: "int option"

definition default_configs :: "string list" where
  "default_configs = [''p/swift'', ''p/owasp-top-ten'', ''p/secrets'']"

definition build_cmd :: "string \<Rightarrow> string list \<Rightarrow> string \<Rightarrow> string list" where
  "build_cmd semgrep_path configs project_path =
     [semgrep_path, ''scan''] @ map (\<lambda>config. ''--config='' @ config) configs
       @ [''--json'', ''--verbose'', project_path]"

definition completed_result :: "string list \<Rightarrow> completed \<Rightarrow> scan_result" where
  "completed_result cmd r =
     \<lparr>success = (returncode r = 0), error = None, output_text = stdout r @ stderr r,
      command = Some (join '' '' cmd), return_code = Some (returncode r)\<rparr>"

definition timeout_result :: "string list \<Rightarrow> scan_result" where
  "timeout_result cmd =
     \<lparr>success = False, error = Some ''Scan timed out'',
      output_text = ''Semgrep scan timed out after 5 minutes'',
      command = Some (join '' '' cmd), return_code = None\<rparr>"

definition fault_result :: "string list \<Rightarrow> string \<Rightarrow> scan_result" where
  "fault_result cmd m =
     \<lparr>success = False, error = Some m, output_text = ''Error running Semgrep: '' @ m,
      command = Some (join '' '' cmd), return_code = None\<rparr>"

text \<open>The two handlers of the \<^verbatim>\<open>try\<close> block, in the order of the source.\<close>

fun handle_exn :: "string list \<Rightarrow> exn \<Rightarrow> scan_result" where
  "handle_exn cmd TimeoutExpired = timeout_result cmd"
| "handle_exn cmd (SubprocessError m) = fault_result cmd m"
| "handle_exn cmd (FileNotFoundError m) = fault_result cmd m"
| "handle_exn cmd (OtherException m) = fault_result cmd m"

text \<open>
  The body of the \<^verbatim>\<open>try\<close> block: remember the directory, enter the project, run the
  command with a timeout of 300 seconds, go back. An exception ends the block where it is
  raised, with the state reached so far.
\<close>

definition try_block :: "env \<Rightarrow> string list \<Rightarrow> string \<Rightarrow> pstate \<Rightarrow> (exn + scan_result) \<times> pstate" where
  "try_block e cmd project_path s =
     (case os_getcwd e s of
        Inl x \<Rightarrow> (Inl x, s)
      | Inr original_cwd \<Rightarrow>
          (case os_chdir e project_path s of
             Inl x \<Rightarrow> (Inl x, s)
           | Inr s1 \<Rightarrow>
               (case subprocess_run e cmd 300 s1 of
                  (Inl x, s2) \<Rightarrow> (Inl x, s2)
                | (Inr r, s2) \<Rightarrow>
                    (case os_chdir e original_cwd s2 of
                       Inl x \<Rightarrow> (Inl x, s2)
                     | Inr s3 \<Rightarrow> (Inr (completed_result cmd r), s3)))))"

definition run_semgrep_scan :: "env \<Rightarrow> string \<Rightarrow> string list \<Rightarrow> pstate \<Rightarrow> (exn + scan_result) \<times> pstate" where
  "run_semgrep_scan e project_path configs s =
     (case find_system_semgrep e s of
        (Inl x, s') \<Rightarrow> (Inl x, s')
      | (Inr None, s') \<Rightarrow>
          (case get_installation_instructions e s' of
             (text, s'') \<Rightarrow>
               (Inr \<lparr>success = False, error = Some ''Semgrep not found'', output_text = text,
                     command = None, return_code = None\<rparr>, s''))
      | (Inr (Some semgrep_path), s') \<Rightarrow>
          (let cmd = build_cmd semgrep_path configs project_path
           in case try_block e cmd project_path s' of
                (Inr res, s'') \<Rightarrow> (Inr res, s'')
              | (Inl x, s'') \<Rightarrow> (Inr (handle_exn cmd x), s'')))"

subsection \<open>main\<close>

text \<open>
  How the process ends: \<^verbatim>\<open>sys.exit(n)\<close>, an exception nobody caught, or the end of
  \<^verbatim>\<open>main\<close>. The interpreter turns an uncaught exception into exit status 1 and a normal
  end into exit status 0.
\<close>

datatype ending = SysExit nat | Uncaught exn | Returned

fun exit_status :: "ending \<Rightarrow> nat" where
  "exit_status (SysExit n) = n"
| "exit_status (Uncaught x) = 1"
| "exit_status Returned = 0"

definition results_marker :: string where
  "results_marker = [CHR 0x22] @ ''results'' @ [CHR 0x22] @ '': [''"

definition msg_issues_found :: string where
  "msg_issues_found =
     [CHR 0xE2, CHR 0x9A, CHR 0xA0, CHR 0xEF, CHR 0xB8, CHR 0x8F] @ '' Security issues found!''"

definition msg_no_issues :: string where
  "msg_no_issues = [CHR 0xF0, CHR 0x9F, CHR 0x8E, CHR 0x89] @ '' No security issues found!''"

definition msg_completed :: string where
  "msg_completed = [CHR 0xE2, CHR 0x9C, CHR 0x85] @ '' Scan completed successfully''"

definition msg_failed :: string where
  "msg_failed = [CHR 0xE2, CHR 0x9D, CHR 0x8C] @ '' Scan failed or found issues''"

text \<open>
  The eight lines before the scan; the \<^verbatim>\<open>date\<close> command is started when the fifth
  line is built.
\<close>

definition print_banner :: "env \<Rightarrow> string \<Rightarrow> pstate \<Rightarrow> exn option \<times> pstate" where
  "print_banner e project_path s =
     (case print_lines e
             [[CHR 0xF0, CHR 0x9F, CHR 0x94, CHR 0x8D] @ '' Running Semgrep Security Scan'',
              ''================================'',
              [],
              ''Project: '' @ project_path] s of
        (Some x, s) \<Rightarrow> (Some x, s)
      | (None, s) \<Rightarrow>
          (case os_popen_read e ''date'' s of
             (d, s) \<Rightarrow>
               print_lines e
                 [''Generated: '' @ strip d,
                  [],
                  [CHR 0xF0, CHR 0x9F, CHR 0x93, CHR 0x8B] @ '' Command Output:'',
                  ''-----------------''] s))"

text \<open>
  The lines after the scan, in the order of the \<^verbatim>\<open>print\<close> statements: the command and
  an empty line if the result has a command, the output, the summary, the footer.
\<close>

definition command_lines :: "scan_result \<Rightarrow> string list" where
  "command_lines result =
     (case command result of
        None \<Rightarrow> []
      | Some c \<Rightarrow> if c = [] then [] else [''Command: '' @ c, []])"

definition summary_lines :: "scan_result \<Rightarrow> string list" where
  "summary_lines result =
     (if success result then
        [[], msg_completed,
         if contains results_marker (output_text result) then msg_issues_found else msg_no_issues]
      else
        [[], msg_failed]
          @ (if error result = Some ''Semgrep not found'' then
               [''Reason: Semgrep is not installed or not in PATH'',
                ''Please install Semgrep using one of the methods shown above.'']
             else []))"

definition footer_lines :: "string list" where
  "footer_lines =
     [[], ''=================================================='', ''End of Semgrep Scan Report'',
      ''=================================================='']"

text \<open>
  An exception of a \<^verbatim>\<open>print\<close> is caught nowhere: it ends the process, and so does an
  exception that leaves \<open>run_semgrep_scan\<close>.
\<close>

definition ending_of :: "ending \<Rightarrow> exn option \<times> pstate \<Rightarrow> ending \<times> pstate" where
  "ending_of normal r = (case r of (Some x, s) \<Rightarrow> (Uncaught x, s) | (None, s) \<Rightarrow> (normal, s))"

definition main :: "env \<Rightarrow> pstate \<Rightarrow> ending \<times> pstate" where
  "main e s =
     (if length (argv e) < 2 then
        ending_of (SysExit 1) (print e ''Usage: python3 semgrep_standalone.py <project_path>'' s)
      else
        (let project_path = argv e ! 1
         in if \<not> path_exists e project_path then
              ending_of (SysExit 1)
                (print e ([CHR 0xE2, CHR 0x9D, CHR 0x8C] @ '' Project path does not exist: ''
                            @ project_path) s)
            else
              (case print_banner e project_path s of
                 (Some x, s') \<Rightarrow> (Uncaught x, s')
               | (None, s') \<Rightarrow>
                   (case run_semgrep_scan e project_path default_configs s' of
                      (Inl x, s') \<Rightarrow> (Uncaught x, s')
                    | (Inr result, s') \<Rightarrow>
                        ending_of Returned
                          (print_lines e
                             (command_lines result @ [output_text result] @ summary_lines result
                                @ footer_lines) s')))))"

subsection \<open>Concrete worlds\<close>

text \<open>
  A machine on which \<open>exe\<close> says which paths are executable files, every child process
  ends as \<open>outcome\<close> tells for its command line, \<open>chdir\<close> decides the changes of
  directory, and the standard output takes every line. The script is started as
  \<^verbatim>\<open>python3 semgrep_standalone.py /proj\<close>.
\<close>

definition machine ::
  "(string \<Rightarrow> bool) \<Rightarrow> (string list \<Rightarrow> exn + completed) \<Rightarrow> (string \<Rightarrow> string \<Rightarrow> exn + string) \<Rightarrow> env" where
  "machine exe outcome chdir =
     \<lparr>argv = [''semgrep_standalone.py'', ''/proj''],
      isfile = exe,
      access_x = exe,
      path_exists = (\<lambda>p. p = ''/proj''),
      expanduser = (\<lambda>p. ''/home/dev'' @ tl p),
      popen_read = (\<lambda>c. ''Tue Nov  3 21:24:00 UTC 2026\<newline>''),
      run_proc = (\<lambda>cmd t d. outcome cmd),
      enter_dir = chdir,
      cwd_fault = (\<lambda>d. None),
      stdout_fault = (\<lambda>l. None)\<rparr>"

definition start :: pstate where
  "start = \<lparr>cwd = ''/home/dev'', spawned = [], printed = []\<rparr>"

definition usr_bin_only :: "string \<Rightarrow> bool" where
  "usr_bin_only p = (p = ''/usr/bin/semgrep'')"

definition scan_cmd :: "string list" where
  "scan_cmd = [''/usr/bin/semgrep'', ''scan'', ''--config=p/swift'', ''--config=p/owasp-top-ten'',
               ''--config=p/secrets'', ''--json'', ''--verbose'', ''/proj'']"

definition clean_report :: completed where
  "clean_report = \<lparr>returncode = 0, stdout = ''{}'', stderr = []\<rparr>"

text \<open>The scan runs into its timeout; every directory can be entered.\<close>

definition env_timeout :: env where
  "env_timeout = machine usr_bin_only (\<lambda>cmd. Inl TimeoutExpired) (\<lambda>d p. Inr p)"

text \<open>The scan ends with exit code 0; every directory can be entered.\<close>

definition env_clean :: env where
  "env_clean = machine usr_bin_only (\<lambda>cmd. Inr clean_report) (\<lambda>d p. Inr p)"

text \<open>
  The scan ends with exit code 0, but the directory the script was started in is gone by
  then: only the project directory can be entered.
\<close>

definition env_restore_fault :: env where
  "env_restore_fault =
     machine usr_bin_only (\<lambda>cmd. Inr clean_report)
       (\<lambda>d p. if p = ''/proj'' then Inr p
               else Inl (FileNotFoundError ''[Errno 2] No such file or directory''))"

text \<open>No executable anywhere, and \<^verbatim>\<open>which\<close> ends with exit code 1.\<close>

definition env_no_semgrep :: env where
  "env_no_semgrep =
     machine (\<lambda>p. False) (\<lambda>cmd. Inr \<lparr>returncode = 1, stdout = [], stderr = []\<rparr>) (\<lambda>d p. Inr p)"

text \<open>
  No executable in the candidate list, and starting \<^verbatim>\<open>which\<close> raises an exception
  that is none of the three the lookup passes over.
\<close>

definition env_lookup_exception :: env where
  "env_lookup_exception =
     machine (\<lambda>p. False) (\<lambda>cmd. Inl (OtherException ''[Errno 13] Permission denied'')) (\<lambda>d p. Inr p)"

text \<open>The script started with a target path that does not exist.\<close>

definition env_no_target :: env where
  "env_no_target = env_clean\<lparr>argv := [''semgrep_standalone.py'', ''/nowhere'']\<rparr>"

text \<open>
  The machine of \<open>env_clean\<close> with a standard output in the encoding ASCII: a line with
  a character outside it (in the texts of the model, a byte from 128 on) raises
  \<^verbatim>\<open>UnicodeEncodeError\<close>.
\<close>

definition env_ascii_stdout :: env where
  "env_ascii_stdout =
     env_clean\<lparr>stdout_fault :=
       (\<lambda>l. if list_all (\<lambda>c. of_char c < (128 :: nat)) l then None
             else Some (OtherException ''UnicodeEncodeError''))\<rparr>"

section \<open>The manifest patcher: add_resources_to_project.py\<close>

subsection \<open>Text operations\<close>

text \<open>
  \<^verbatim>\<open>text.split(sep)\<close> with a separator: the pieces between the occurrences of \<open>sep\<close>,
  found from left to right without overlap. Python refuses an empty separator; the script
  only splits at fixed non-empty ones.
\<close>

function split_from :: "string \<Rightarrow> string \<Rightarrow> string \<Rightarrow> string list" where
  "split_from sep acc [] = [rev acc]"
| "split_from sep acc (c # cs) =
     (if sep \<noteq> [] \<and> prefix sep (c # cs)
      then rev acc # split_from sep [] (drop (length sep) (c # cs))
      else split_from sep (c # acc) cs)"
  by pat_completeness auto
termination
  by (relation "measure (\<lambda>(sep, acc, s). length s)") auto

definition split_str :: "string \<Rightarrow> string \<Rightarrow> string list" where
  "split_str sep s = split_from sep [] s"

text \<open>\<^verbatim>\<open>text.replace(old, new)\<close>.\<close>

definition replace :: "string \<Rightarrow> string \<Rightarrow> string \<Rightarrow> string" where
  "replace old new s = join new (split_str old s)"

text \<open>\<^verbatim>\<open>text.upper()\<close>, on the letters a to z; the script applies it to hexadecimal digits.\<close>

definition to_upper :: "char \<Rightarrow> char" where
  "to_upper c =
     (if (97::nat) \<le> of_char c \<and> of_char c \<le> (122::nat) then char_of (of_char c - (32::nat)) else c)"

definition upper :: "string \<Rightarrow> string" where
  "upper s = map to_upper s"

definition tabs :: "nat \<Rightarrow> string" where
  "tabs n = replicate n TAB"

subsection \<open>Fresh identifiers\<close>

text \<open>
  \<^verbatim>\<open>uuid.uuid4()\<close> takes 128 random bits and sets the variant and the version 4 in them;
  \<^verbatim>\<open>str\<close> prints the 32 hexadecimal digits in the groups 8-4-4-4-12.
\<close>

definition uuid4 :: "128 word \<Rightarrow> 128 word" where
  "uuid4 r =
     ((r AND NOT (push_bit 48 0xC000) OR push_bit 48 0x8000) AND NOT (push_bit 64 0xF000))
       OR push_bit 76 4"

definition hex_digit :: "nat \<Rightarrow> char" where
  "hex_digit n = ''0123456789abcdef'' ! n"

definition hex32 :: "128 word \<Rightarrow> string" where
  "hex32 w = map (\<lambda>i. hex_digit (unat (drop_bit (4 * (31 - i)) w AND 15))) [0..<32]"

definition uuid_str :: "128 word \<Rightarrow> string" where
  "uuid_str w =
     (let h = hex32 w
      in take 8 h @ ''-'' @ take 4 (drop 8 h) @ ''-'' @ take 4 (drop 12 h) @ ''-''
           @ take 4 (drop 16 h) @ ''-'' @ drop 20 h)"

text \<open>\<^verbatim>\<open>str(uuid.uuid4()).replace('-', '').upper()[:24]\<close>, from the random bits \<open>r\<close>.\<close>

definition new_id :: "128 word \<Rightarrow> string" where
  "new_id r = take 24 (upper (replace ''-'' [] (uuid_str (uuid4 r))))"

subsection \<open>Patterns and substitution\<close>

text \<open>
  The patterns of the script are sequences of literal texts and of greedy repetitions
  \<^verbatim>\<open>C+\<close> of a character class, in groups. The matcher tries a repetition at its longest
  first and gives characters back one by one, down to one character, until the rest of the
  pattern matches: the search order of Python's \<^verbatim>\<open>re\<close>. It returns the text taken by each
  item. In \<open>bt_plus items taken rest\<close>, \<open>taken\<close> is the text the repetition holds, last
  character first.
\<close>

datatype atom = Lit string | Plus "char \<Rightarrow> bool"

function bt :: "atom list \<Rightarrow> string \<Rightarrow> string list option"
  and bt_plus :: "atom list \<Rightarrow> string \<Rightarrow> string \<Rightarrow> string list option" where
  "bt [] s = Some []"
| "bt (Lit l # items) s =
     (if prefix l s then map_option ((#) l) (bt items (drop (length l) s)) else None)"
| "bt (Plus p # items) s = bt_plus items (rev (takeWhile p s)) (dropWhile p s)"
| "bt_plus items [] rest = None"
| "bt_plus items (c # taken) rest =
     (case bt items rest of
        Some ps \<Rightarrow> Some (rev (c # taken) # ps)
      | None \<Rightarrow> bt_plus items taken (c # rest))"
  by pat_completeness auto
termination
  by (relation "(\<lambda>x. case x of Inl (items, s) \<Rightarrow> 2 * length items
                           | Inr (items, taken, rest) \<Rightarrow> 2 * length items + 1)
        <*mlex*> (\<lambda>x. case x of Inl (items, s) \<Rightarrow> 0 | Inr (items, taken, rest) \<Rightarrow> length taken)
        <*mlex*> {}")
    (auto simp add: wf_mlex mlex_less mlex_leq)

text \<open>The texts of the groups, from the texts of the items.\<close>

fun regroup :: "nat list \<Rightarrow> string list \<Rightarrow> string list" where
  "regroup [] ps = []"
| "regroup (n # ns) ps = concat (take n ps) # regroup ns (drop n ps)"

text \<open>\<^verbatim>\<open>pattern.match(text)\<close>: the groups of the match at the start of the text.\<close>

definition re_match :: "atom list list \<Rightarrow> string \<Rightarrow> string list option" where
  "re_match groups s = map_option (regroup (map length groups)) (bt (concat groups) s)"

text \<open>
  \<^verbatim>\<open>re.sub(pattern, repl, text)\<close> with a function \<open>repl\<close>: every match, found from left
  to right without overlap, is replaced by what \<open>repl\<close> returns for its groups. The calls
  of \<open>repl\<close> share a state (the random source of the script). No pattern of the script
  matches the empty text; the model steps over such a match.
\<close>

function re_sub ::
  "atom list list \<Rightarrow> (string list \<Rightarrow> 's \<Rightarrow> string \<times> 's) \<Rightarrow> string \<Rightarrow> 's \<Rightarrow> string \<times> 's" where
  "re_sub pat repl [] st = ([], st)"
| "re_sub pat repl (c # cs) st =
     (case re_match pat (c # cs) of
        None \<Rightarrow> (case re_sub pat repl cs st of (out, st') \<Rightarrow> (c # out, st'))
      | Some gs \<Rightarrow>
          (if concat gs = [] then (case re_sub pat repl cs st of (out, st') \<Rightarrow> (c # out, st'))
           else (case repl gs st of
                   (r, st1) \<Rightarrow>
                     (case re_sub pat repl (drop (length (concat gs)) (c # cs)) st1 of
                        (out, st2) \<Rightarrow> (r @ out, st2)))))"
  by pat_completeness auto
termination
  by (relation "measure (\<lambda>(pat, repl, s, st). length s)") auto





subsection \<open>The patterns of the script\<close>

definition not_brace :: "char \<Rightarrow> bool" where
  "not_brace c = (c \<noteq> CHR ''}'')"

definition begin_group_marker :: string where
  "begin_group_marker = ''/* Begin PBXGroup section */''"

definition end_group_marker :: string where
  "end_group_marker = ''/* End PBXGroup section */''"

definition end_file_ref_marker :: string where
  "end_file_ref_marker = ''/* End PBXFileReference section */''"

definition end_build_file_marker :: string where
  "end_build_file_marker = ''/* End PBXBuildFile section */''"

definition resources_phase_header :: string where
  "resources_phase_header = ''02DAD4482E70CC2D00BB3786 /* Resources */ = {''"

definition main_group_pattern :: "atom list list" where
  "main_group_pattern =
     [[Lit begin_group_marker, Plus is_space, Plus not_brace, Lit ''mainGroup = {'',
       Plus not_brace, Lit ''children = ('', Plus is_space],
      [Plus not_brace],
      [Plus is_space, Lit '');'', Plus not_brace, Lit ''};'']]"

definition resources_build_phase_pattern :: "atom list list" where
  "resources_build_phase_pattern =
     [[Lit resources_phase_header, Plus not_brace, Lit ''files = ('', Plus is_space],
      [Plus not_brace],
      [Plus is_space, Lit '');'', Plus not_brace, Lit ''};'']]"

subsection \<open>The inserted texts\<close>

definition resources_entry :: "string \<Rightarrow> string" where
  "resources_entry resources_group_id = tabs 4 @ resources_group_id @ '' /* Resources */,\<newline>''"

definition resources_group_def :: "string \<Rightarrow> string \<Rightarrow> string" where
  "resources_group_def resources_group_id semgrep_file_id = concat
     [''\<newline>'',
      tabs 2, resources_group_id, '' /* Resources */ = {\<newline>'',
      tabs 3, ''isa = PBXGroup;\<newline>'',
      tabs 3, ''children = (\<newline>'',
      tabs 4, semgrep_file_id, '' /* semgrep */,\<newline>'',
      tabs 3, '');\<newline>'',
      tabs 3, ''path = Resources;\<newline>'',
      tabs 3, ''sourceTree = '', [CHR 0x22], ''<group>'', [CHR 0x22], '';\<newline>'',
      tabs 2, ''};'']"

definition semgrep_file_ref :: "string \<Rightarrow> string" where
  "semgrep_file_ref semgrep_file_id = concat
     [''\<newline>'',
      tabs 2, semgrep_file_id, '' /* semgrep */ = {\<newline>'',
      tabs 3, ''isa = PBXFileReference;\<newline>'',
      tabs 3, ''lastKnownFileType = text.script.python;\<newline>'',
      tabs 3, ''path = semgrep;\<newline>'',
      tabs 3, ''sourceTree = '', [CHR 0x22], ''<group>'', [CHR 0x22], '';\<newline>'',
      tabs 2, ''};'']"

definition semgrep_entry :: "string \<Rightarrow> string" where
  "semgrep_entry semgrep_build_file_id =
     tabs 4 @ semgrep_build_file_id @ '' /* semgrep in Resources */,\<newline>''"

definition semgrep_build_file_ref :: "string \<Rightarrow> string \<Rightarrow> string" where
  "semgrep_build_file_ref semgrep_build_file_id semgrep_file_id = concat
     [''\<newline>'',
      tabs 2, semgrep_build_file_id, '' /* semgrep in Resources */ = {\<newline>'',
      tabs 3, ''isa = PBXBuildFile;\<newline>'',
      tabs 3, ''fileRef = '', semgrep_file_id, '' /* semgrep */;\<newline>'',
      tabs 2, ''};'']"


subsection \<open>The two replacement functions\<close>

text \<open>
  The test of the loop in \<open>add_resources_to_main_group\<close>: the line holds both comment
  delimiters, and the piece after its first \<^verbatim>\<open>/*\<close> holds another \<^verbatim>\<open>/*\<close>.
\<close>

definition is_group_line :: "string \<Rightarrow> bool" where
  "is_group_line line =
     (if contains ''/*'' line \<and> contains ''*/'' line
      then contains ''/*'' (split_str ''/*'' line ! 1) else False)"

text \<open>The loop: the index of the last line that passes the test, or -1.\<close>

fun last_group_line :: "string list \<Rightarrow> int \<Rightarrow> int \<Rightarrow> int" where
  "last_group_line [] i found = found"
| "last_group_line (line # lines) i found =
     last_group_line lines (i + 1) (if is_group_line line then i else found)"

definition add_resources_to_main_group :: "string \<Rightarrow> string list \<Rightarrow> string" where
  "add_resources_to_main_group resources_group_id gs =
     (let prefix_text = gs ! 0; children = gs ! 1; suffix_text = gs ! 2;
          lines = split_str ''\<newline>'' children;
          k = last_group_line lines 0 (- 1);
          lines' = (if k \<ge> 0
                    then take (nat (k + 1)) lines @ [resources_entry resources_group_id]
                           @ drop (nat (k + 1)) lines
                    else lines @ [resources_entry resources_group_id])
      in prefix_text @ join ''\<newline>'' lines' @ suffix_text)"


subsection \<open>add_resources_to_project\<close>









section \<open>Notions for the properties of the patcher\<close>

subsection \<open>Notions for the proofs\<close>

text \<open>
  A way to match: one text for each item of a pattern, the literal itself for a literal and
  a non-empty text of the class for a repetition, which together begin the given text.
\<close>

fun fits :: "atom \<Rightarrow> string \<Rightarrow> bool" where
  "fits (Lit l) p = (p = l)"
| "fits (Plus cls) p = (p \<noteq> [] \<and> (\<forall>x \<in> set p. cls x))"

definition split_of :: "atom list \<Rightarrow> string list \<Rightarrow> string \<Rightarrow> bool" where
  "split_of items ps s = (list_all2 fits items ps \<and> prefix (concat ps) s)"

text \<open>The order in which the matcher prefers one way to match over another.\<close>

fun lex_le :: "nat list \<Rightarrow> nat list \<Rightarrow> bool" where
  "lex_le [] [] = True"
| "lex_le (a # as) (b # bs) = (a < b \<or> (a = b \<and> lex_le as bs))"
| "lex_le _ _ = False"

text \<open>An item that cannot take a closing brace.\<close>

fun brace_free :: "atom \<Rightarrow> bool" where
  "brace_free (Lit l) = (CHR ''}'' \<notin> set l)"
| "brace_free (Plus cls) = (\<not> cls (CHR ''}''))"

text \<open>
  \<open>clear l t\<close>: the text \<open>l\<close> does not begin anywhere inside \<open>t\<close>, whatever follows
  \<open>t\<close>. \<open>plain t\<close>: this holds for the five texts at which the patterns of the script
  begin.
\<close>

fun clear :: "string \<Rightarrow> string \<Rightarrow> bool" where
  "clear l [] = True"
| "clear l (c # cs) = (\<not> prefix l (c # cs) \<and> \<not> prefix (c # cs) l \<and> clear l cs)"

definition plain :: "string \<Rightarrow> bool" where
  "plain t =
     (clear begin_group_marker t \<and> clear end_group_marker t \<and> clear end_file_ref_marker t
      \<and> clear resources_phase_header t \<and> clear end_build_file_marker t)"

definition spaces :: "string \<Rightarrow> bool" where
  "spaces t = (t \<noteq> [] \<and> (\<forall>c \<in> set t. is_space c))"

definition inner :: "string \<Rightarrow> bool" where
  "inner t = (t \<noteq> [] \<and> CHR ''}'' \<notin> set t \<and> plain t)"

subsection \<open>Manifests of the shape the patterns assume\<close>

text \<open>
  The parts of a manifest in which the build file section, the file reference section,
  the group section with the main group first, and the resources build phase follow each
  other. The fixed texts between the parts are those of \<open>render\<close>.
\<close>

record manifest =
  build_files :: string
  file_refs :: string
  before_groups :: string
  begin_space :: string
  begin_text :: string
  group_attrs :: string
  children_space :: string
  children :: string
  children_close :: char
  group_tail :: string
  other_groups :: string
  before_phase :: string
  phase_attrs :: string
  files_space :: string
  files :: string
  files_close :: char
  phase_tail :: string
  after_phase :: string

definition closing_line :: "string \<Rightarrow> string" where
  "closing_line marker = marker @ [NL]"

definition main_group_block :: "manifest \<Rightarrow> string" where
  "main_group_block m = concat
     [begin_group_marker, begin_space m, begin_text m, ''mainGroup = {'', group_attrs m,
      ''children = ('', children_space m, children m, [children_close m], '');'',
      group_tail m, ''};'']"

definition phase_block :: "manifest \<Rightarrow> string" where
  "phase_block m = concat
     [resources_phase_header, phase_attrs m, ''files = ('', files_space m, files m,
      [files_close m], '');'', phase_tail m, ''};'']"

definition render :: "manifest \<Rightarrow> string" where
  "render m = concat
     [build_files m, closing_line end_build_file_marker,
      file_refs m, closing_line end_file_ref_marker,
      before_groups m, main_group_block m, other_groups m, closing_line end_group_marker,
      before_phase m, phase_block m, after_phase m]"

text \<open>
  The conditions on the parts: none of them holds a text at which a pattern begins; the
  parts inside the two blocks are non-empty and without a closing brace; the white space is
  white space; and after the closing of the two lists no other \<^verbatim>\<open>);\<close> follows inside
  the block.
\<close>

definition well_shaped :: "manifest \<Rightarrow> bool" where
  "well_shaped m =
     (plain (build_files m) \<and> plain (file_refs m) \<and> plain (before_groups m)
      \<and> spaces (begin_space m) \<and> inner (begin_text m) \<and> inner (group_attrs m)
      \<and> spaces (children_space m) \<and> inner (children m) \<and> is_space (children_close m)
      \<and> inner (group_tail m) \<and> \<not> contains '');'' (group_tail m)
      \<and> plain (other_groups m) \<and> plain (before_phase m)
      \<and> inner (phase_attrs m) \<and> spaces (files_space m) \<and> inner (files m)
      \<and> is_space (files_close m) \<and> inner (phase_tail m) \<and> \<not> contains '');'' (phase_tail m)
      \<and> plain (after_phase m))"

text \<open>What one run adds, with the random bits \<open>rnd\<close>: one entry in each of five parts.\<close>

definition grow :: "(nat \<Rightarrow> 128 word) \<Rightarrow> manifest \<Rightarrow> manifest" where
  "grow rnd m = m
     \<lparr>children := children m @ [NL] @ resources_entry (new_id (rnd 0)),
      other_groups := other_groups m @ resources_group_def (new_id (rnd 0)) (new_id (rnd 1))
                        @ [NL, NL, TAB, TAB],
      file_refs := file_refs m @ semgrep_file_ref (new_id (rnd 1)) @ [NL, NL, TAB, TAB],
      files := files m @ [NL] @ semgrep_entry (new_id (rnd 2)),
      build_files := build_files m @ semgrep_build_file_ref (new_id (rnd 3)) (new_id (rnd 1))
                       @ [NL, NL, TAB, TAB]\<rparr>"

subsection \<open>Concrete manifests\<close>

text \<open>Random bits whose identifiers differ in their first digit.\<close>

definition dice :: "nat \<Rightarrow> 128 word" where
  "dice n = push_bit 124 (word_of_nat (n + 1))"




text \<open>
  A manifest of the shape the patterns assume, with one entry in the list of the main group
  and one in the file list of the resources build phase.
\<close>

definition sample :: manifest where
  "sample =
     \<lparr>build_files = concat
        [''/* Begin PBXBuildFile section */\<newline>'',
         tabs 2, ''02DAD4532E70CC2E00BB3786 /* Assets.xcassets in Resources */ = {'',
         ''isa = PBXBuildFile; fileRef = 02DAD4522E70CC2E00BB3786 /* Assets.xcassets */; };\<newline>''],
      file_refs = concat
        [''\<newline>/* Begin PBXFileReference section */\<newline>'',
         tabs 2, ''02DAD4522E70CC2E00BB3786 /* Assets.xcassets */ = {'',
         ''isa = PBXFileReference; path = Assets.xcassets; };\<newline>''],
      before_groups = ''\<newline>'',
      begin_space = ''\<newline>'' @ tabs 2,
      begin_text = ''/* root */ '',
      group_attrs = ''\<newline>'' @ tabs 3 @ ''isa = PBXGroup;\<newline>'' @ tabs 3,
      children_space = ''\<newline>'' @ tabs 4,
      children = ''02DAD4522E70CC2E00BB3786 /* Assets.xcassets */,\<newline>'' @ tabs 2,
      children_close = TAB,
      group_tail = ''\<newline>'' @ tabs 3 @ ''sourceTree = SOURCE_ROOT;\<newline>'' @ tabs 2,
      other_groups = ''\<newline>'',
      before_phase = ''\<newline>/* Begin PBXResourcesBuildPhase section */\<newline>'' @ tabs 2,
      phase_attrs = ''\<newline>'' @ tabs 3 @ ''isa = PBXResourcesBuildPhase;\<newline>'' @ tabs 3,
      files_space = ''\<newline>'' @ tabs 4,
      files = ''02DAD4532E70CC2E00BB3786 /* Assets.xcassets in Resources */,\<newline>'' @ tabs 2,
      files_close = TAB,
      phase_tail = ''\<newline>'' @ tabs 3 @ ''runOnlyForDeploymentPostprocessing = 0;\<newline>''
                     @ tabs 2,
      after_phase = ''\<newline>/* End PBXResourcesBuildPhase section */\<newline>''\<rparr>"

text \<open>The random bits of a second run.\<close>

definition redice :: "nat \<Rightarrow> 128 word" where
  "redice n = dice (n + 4)"

text \<open>
  A text in which all five patterns match, and in which the end marker of the group section
  stands a second time, in a comment; and the text with the insertions of one run.
\<close>

definition twin_manifest :: string where
  "twin_manifest = concat
     [''/* End PBXBuildFile section */\<newline>'',
      ''/* End PBXFileReference section */\<newline>'',
      ''/* Begin PBXGroup section */\<newline>'',
      tabs 2, ''root mainGroup = {\<newline>'',
      tabs 3, ''children = (\<newline>'',
      tabs 4, ''A /* Assets.xcassets */,\<newline>'',
      tabs 3, '');\<newline>'',
      tabs 3, ''sourceTree = SOURCE_ROOT;\<newline>'',
      tabs 2, ''};\<newline>'',
      ''/* End PBXGroup section */\<newline>'',
      ''// groups end at /* End PBXGroup section */\<newline>'',
      tabs 2, ''02DAD4482E70CC2D00BB3786 /* Resources */ = {\<newline>'',
      tabs 3, ''files = (\<newline>'',
      tabs 4, ''B /* Assets.xcassets in Resources */,\<newline>'',
      tabs 3, '');\<newline>'',
      tabs 3, ''runOnlyForDeploymentPostprocessing = 0;\<newline>'',
      tabs 2, ''};\<newline>'']"

definition twin_patched :: string where
  "twin_patched = concat
     [semgrep_build_file_ref (new_id (dice 3)) (new_id (dice 1)), [NL, NL, TAB, TAB],
      ''/* End PBXBuildFile section */\<newline>'',
      semgrep_file_ref (new_id (dice 1)), [NL, NL, TAB, TAB],
      ''/* End PBXFileReference section */\<newline>'',
      ''/* Begin PBXGroup section */\<newline>'',
      tabs 2, ''root mainGroup = {\<newline>'',
      tabs 3, ''children = (\<newline>'',
      tabs 4, ''A /* Assets.xcassets */,\<newline>'',
      tabs 2, [NL], resources_entry (new_id (dice 0)),
      tabs 1, '');\<newline>'',
      tabs 3, ''sourceTree = SOURCE_ROOT;\<newline>'',
      tabs 2, ''};\<newline>'',
      resources_group_def (new_id (dice 0)) (new_id (dice 1)), [NL, NL, TAB, TAB],
      ''/* End PBXGroup section */\<newline>'',
      ''// groups end at '',
      resources_group_def (new_id (dice 0)) (new_id (dice 1)), [NL, NL, TAB, TAB],
      ''/* End PBXGroup section */\<newline>'',
      tabs 2, ''02DAD4482E70CC2D00BB3786 /* Resources */ = {\<newline>'',
      tabs 3, ''files = (\<newline>'',
      tabs 4, ''B /* Assets.xcassets in Resources */,\<newline>'',
      tabs 2, [NL], semgrep_entry (new_id (dice 2)),
      tabs 1, '');\<newline>'',
      tabs 3, ''runOnlyForDeploymentPostprocessing = 0;\<newline>'',
      tabs 2, ''};\<newline>'']"

section \<open>Properties of the scanner invoker\<close>

lemma find_system_semgrep_cwd: "cwd (snd (find_system_semgrep e s)) = cwd s"
  by (simp add: find_system_semgrep_def subprocess_run_def Let_def
      split: option.splits sum.splits exn.splits prod.splits)

lemma print_lines_ok:
  "stdout_fault e = (\<lambda>l. None) \<Longrightarrow> print_lines e ls s = (None, s\<lparr>printed := printed s @ ls\<rparr>)"
  by (induction ls arbitrary: s) (simp_all add: print_def)

lemma print_lines_cwd: "cwd (snd (print_lines e ls s)) = cwd s"
  by (induction ls arbitrary: s) (simp_all add: print_def split: option.splits)

lemma print_banner_cwd: "cwd (snd (print_banner e project_path s)) = cwd s"
proof -
  define first_lines where "first_lines =
    [[CHR 0xF0, CHR 0x9F, CHR 0x94, CHR 0x8D] @ '' Running Semgrep Security Scan'',
     ''================================'', [], ''Project: '' @ project_path]"
  obtain r s1 where p: "print_lines e first_lines s = (r, s1)" by force
  with print_lines_cwd [of e first_lines s] have c: "cwd s1 = cwd s" by simp
  show ?thesis
  proof (cases r)
    case None
    with p c show ?thesis
      unfolding print_banner_def first_lines_def [symmetric]
      by (simp add: print_lines_cwd os_popen_read_def del: print_lines.simps)
  next
    case (Some x)
    with p c show ?thesis
      unfolding print_banner_def first_lines_def [symmetric]
      by (simp del: print_lines.simps)
  qed
qed

lemma join_build_cmd_nonempty: "join '' '' (build_cmd p configs project_path) \<noteq> []"
  by (simp add: build_cmd_def)

lemma find_usr_bin:
  "find_system_semgrep (machine usr_bin_only outcome chdir) s = (Inr (Some ''/usr/bin/semgrep''), s)"
  by (simp add: find_system_semgrep_def machine_def possible_paths_def is_executable_file_def
      usr_bin_only_def)

lemma machine_sel:
  "argv (machine exe outcome chdir) = [''semgrep_standalone.py'', ''/proj'']"
  "isfile (machine exe outcome chdir) = exe"
  "access_x (machine exe outcome chdir) = exe"
  "path_exists (machine exe outcome chdir) p = (p = ''/proj'')"
  "popen_read (machine exe outcome chdir) c = ''Tue Nov  3 21:24:00 UTC 2026\<newline>''"
  "run_proc (machine exe outcome chdir) cmd t d = outcome cmd"
  "enter_dir (machine exe outcome chdir) = chdir"
  "cwd_fault (machine exe outcome chdir) d = None"
  "stdout_fault (machine exe outcome chdir) = (\<lambda>l. None)"
  by (simp_all add: machine_def)

lemma print_lines_machine:
  "print_lines (machine exe outcome chdir) ls s = (None, s\<lparr>printed := printed s @ ls\<rparr>)"
  by (rule print_lines_ok) (simp add: machine_def)

lemma build_scan_cmd: "build_cmd ''/usr/bin/semgrep'' default_configs ''/proj'' = scan_cmd"
  by (simp add: build_cmd_def default_configs_def scan_cmd_def)

text \<open>The normal path through the \<^verbatim>\<open>try\<close> block.\<close>

lemma scan_normal_path:
  assumes "find_system_semgrep e s = (Inr (Some semgrep_path), s1)"
    and "cwd_fault e (cwd s1) = None"
    and "enter_dir e (cwd s1) project_path = Inr d"
    and "run_proc e (build_cmd semgrep_path configs project_path) 300 d = Inr r"
    and "enter_dir e d (cwd s1) = Inr d0"
  shows "run_semgrep_scan e project_path configs s =
           (Inr (completed_result (build_cmd semgrep_path configs project_path) r),
            s1\<lparr>cwd := d0, spawned := spawned s1 @ [Run (build_cmd semgrep_path configs project_path) 300]\<rparr>)"
  using assms
  by (simp add: run_semgrep_scan_def try_block_def os_getcwd_def os_chdir_def subprocess_run_def Let_def)

text \<open>
  The lookup \<^verbatim>\<open>which semgrep\<close> that yields nothing without an exception leaving it: it
  exits with a non-zero code, prints only whitespace, prints a path that is no executable
  file, or raises one of the three exceptions of the \<^verbatim>\<open>except\<close> clause. Then the result
  is the one with the installation instructions.
\<close>

lemma run_semgrep_scan_no_semgrep:
  assumes "\<forall>p \<in> set (possible_paths e). \<not> is_executable_file e p"
    and "case run_proc e [''which'', ''semgrep''] 5 (cwd s) of
           Inr r \<Rightarrow> returncode r \<noteq> 0 \<or> strip (stdout r) = [] \<or> \<not> is_executable_file e (strip (stdout r))
         | Inl x \<Rightarrow> (case x of OtherException m \<Rightarrow> False | _ \<Rightarrow> True)"
  shows "run_semgrep_scan e project_path configs s =
           (Inr \<lparr>success = False, error = Some ''Semgrep not found'',
                 output_text = instructions_head @ strip (popen_read e ''date'') @ instructions_project
                   @ (if length (argv e) > 1 then argv e ! 1 else cwd s) @ instructions_body,
                 command = None, return_code = None\<rparr>,
            s\<lparr>spawned := spawned s @ [Run [''which'', ''semgrep''] 5, Popen ''date'']\<rparr>)"
proof -
  from assms(1) have f: "find (is_executable_file e) (possible_paths e) = None"
    by (simp add: find_None_iff)
  have "find_system_semgrep e s = (Inr None, s\<lparr>spawned := spawned s @ [Run [''which'', ''semgrep''] 5]\<rparr>)"
    using assms(2) f
    by (auto simp add: find_system_semgrep_def subprocess_run_def Let_def
        split: sum.splits exn.splits)
  then show ?thesis
    by (simp add: run_semgrep_scan_def get_installation_instructions_def os_popen_read_def)
qed

text \<open>
  C1, at a run the code can meet. The script is started in \<^verbatim>\<open>/home/dev\<close>, finds
  \<^verbatim>\<open>/usr/bin/semgrep\<close>, enters \<^verbatim>\<open>/proj\<close> and the scan runs into its timeout:
  the timeout result is returned and the working directory is still \<^verbatim>\<open>/proj\<close>.
  Only the normal path of the \<^verbatim>\<open>try\<close> block goes back to the starting directory.
\<close>

theorem run_semgrep_scan_timeout_stays_in_project:
  "cwd start = ''/home/dev'' \<and>
   run_semgrep_scan env_timeout ''/proj'' default_configs start =
     (Inr (timeout_result scan_cmd), start\<lparr>cwd := ''/proj'', spawned := [Run scan_cmd 300]\<rparr>)"
  by (simp add: run_semgrep_scan_def find_usr_bin env_timeout_def build_scan_cmd try_block_def
      os_getcwd_def os_chdir_def subprocess_run_def machine_sel start_def Let_def)

text \<open>
  C6, at a run the code can meet. None of the four candidate paths is an executable file,
  and the lookup fails: starting \<^verbatim>\<open>which semgrep\<close> raises \<^verbatim>\<open>PermissionError\<close>. The
  \<^verbatim>\<open>except\<close> clause of the lookup names three exceptions, among them
  \<^verbatim>\<open>FileNotFoundError\<close>, and not this one, and the lookup stands before the \<^verbatim>\<open>try\<close>
  block of \<open>run_semgrep_scan\<close>: the exception leaves \<open>run_semgrep_scan\<close>, which returns
  no result, neither \<open>success = False\<close> nor the installation instructions.
\<close>

theorem run_semgrep_scan_lookup_exception:
  "find (is_executable_file env_lookup_exception) (possible_paths env_lookup_exception) = None
   \<and> run_proc env_lookup_exception [''which'', ''semgrep''] 5 (cwd start) =
       Inl (OtherException ''[Errno 13] Permission denied'')
   \<and> run_semgrep_scan env_lookup_exception ''/proj'' default_configs start =
       (Inl (OtherException ''[Errno 13] Permission denied''),
        start\<lparr>spawned := [Run [''which'', ''semgrep''] 5]\<rparr>)"
  by (simp add: run_semgrep_scan_def find_system_semgrep_def env_lookup_exception_def
      machine_def possible_paths_def is_executable_file_def subprocess_run_def start_def)

text \<open>
  C7. The scan is started with a timeout of 300 seconds, and when it runs into that
  timeout \<open>run_semgrep_scan\<close> returns (it does not raise) the result with
  \<open>success = False\<close>, the fixed timeout message as output, and the command line it
  started, joined by spaces.
\<close>

theorem run_semgrep_scan_timeout:
  assumes "find_system_semgrep e s = (Inr (Some semgrep_path), s1)"
    and "cwd_fault e (cwd s1) = None"
    and "enter_dir e (cwd s1) project_path = Inr d"
    and "run_proc e (build_cmd semgrep_path configs project_path) 300 d = Inl TimeoutExpired"
  shows "run_semgrep_scan e project_path configs s =
           (Inr \<lparr>success = False, error = Some ''Scan timed out'',
                 output_text = ''Semgrep scan timed out after 5 minutes'',
                 command = Some (join '' '' (build_cmd semgrep_path configs project_path)),
                 return_code = None\<rparr>,
            s1\<lparr>cwd := d, spawned := spawned s1 @ [Run (build_cmd semgrep_path configs project_path) 300]\<rparr>)"
  using assms
  by (simp add: run_semgrep_scan_def try_block_def os_getcwd_def os_chdir_def subprocess_run_def
      timeout_result_def Let_def)

theorem run_semgrep_scan_timeout_witness:
  "run_semgrep_scan env_timeout ''/proj'' default_configs start =
     (Inr \<lparr>success = False, error = Some ''Scan timed out'',
           output_text = ''Semgrep scan timed out after 5 minutes'',
           command = Some ''/usr/bin/semgrep scan --config=p/swift --config=p/owasp-top-ten --config=p/secrets --json --verbose /proj'',
           return_code = None\<rparr>,
      start\<lparr>cwd := ''/proj'', spawned := [Run scan_cmd 300]\<rparr>)"
  using run_semgrep_scan_timeout [where e = env_timeout and s = start
      and semgrep_path = "''/usr/bin/semgrep''" and ?s1.0 = start and project_path = "''/proj''"
      and d = "''/proj''" and configs = default_configs]
  by (simp add: find_usr_bin env_timeout_def build_scan_cmd machine_sel)
    (simp add: start_def scan_cmd_def)

text \<open>
  C8, as stated, fails when the script cannot go back to its starting directory after
  the scan: the scan has ended with exit code 0, and the result is the fault result, with
  \<open>success = False\<close> and no return code.
\<close>

theorem run_semgrep_scan_restore_fault:
  "run_proc env_restore_fault scan_cmd 300 ''/proj'' = Inr clean_report
   \<and> returncode clean_report = 0
   \<and> fst (run_semgrep_scan env_restore_fault ''/proj'' default_configs start) =
       Inr \<lparr>success = False, error = Some ''[Errno 2] No such file or directory'',
            output_text = ''Error running Semgrep: [Errno 2] No such file or directory'',
            command = Some (join '' '' scan_cmd), return_code = None\<rparr>"
  by (simp add: run_semgrep_scan_def find_usr_bin env_restore_fault_def build_scan_cmd try_block_def
      os_getcwd_def os_chdir_def subprocess_run_def machine_sel start_def Let_def clean_report_def
      fault_result_def)

text \<open>
  C8, amended. In every run in which an executable is found, \<^verbatim>\<open>os.getcwd\<close> and the
  \<^verbatim>\<open>os.chdir\<close> into the project raise nothing, \<^verbatim>\<open>subprocess.run\<close> returns a
  completed process \<open>r\<close> (the scan has ended within its timeout and its output was decoded
  to text: the call raises nothing), and the \<^verbatim>\<open>os.chdir\<close> back to the starting directory
  raises nothing, the result's output is the standard output of \<open>r\<close> followed by its
  standard error, its command is the command line joined by spaces, its return code is the
  exit code of \<open>r\<close>, and \<open>success\<close> holds exactly when that exit code is 0.
\<close>

theorem run_semgrep_scan_completed:
  assumes "find_system_semgrep e s = (Inr (Some semgrep_path), s1)"
    and "cwd_fault e (cwd s1) = None"
    and "enter_dir e (cwd s1) project_path = Inr d"
    and "run_proc e (build_cmd semgrep_path configs project_path) 300 d = Inr r"
    and "enter_dir e d (cwd s1) = Inr d0"
  shows "fst (run_semgrep_scan e project_path configs s) =
           Inr \<lparr>success = (returncode r = 0), error = None,
                output_text = stdout r @ stderr r,
                command = Some (join '' '' (build_cmd semgrep_path configs project_path)),
                return_code = Some (returncode r)\<rparr>"
  using scan_normal_path [OF assms] by (simp add: completed_result_def)

theorem run_semgrep_scan_completed_witness:
  "fst (run_semgrep_scan env_clean ''/proj'' default_configs start) =
     Inr \<lparr>success = True, error = None, output_text = ''{}'',
          command = Some ''/usr/bin/semgrep scan --config=p/swift --config=p/owasp-top-ten --config=p/secrets --json --verbose /proj'',
          return_code = Some 0\<rparr>"
  using run_semgrep_scan_completed [where e = env_clean and s = start
      and semgrep_path = "''/usr/bin/semgrep''" and ?s1.0 = start and project_path = "''/proj''"
      and d = "''/proj''" and configs = default_configs and r = clean_report and ?d0.0 = "''/home/dev''"]
  by (simp add: find_usr_bin env_clean_def build_scan_cmd machine_sel)
    (simp add: start_def scan_cmd_def clean_report_def)

text \<open>
  C9, as stated, fails in the same run: the scan has ended with exit code 0 and its
  output lacks the results marker, yet the driver prints the failure line and not the
  line that no security issues were found.
\<close>

theorem main_summary_restore_fault:
  "run_proc env_restore_fault scan_cmd 300 ''/proj'' = Inr clean_report
   \<and> returncode clean_report = 0
   \<and> \<not> contains results_marker (stdout clean_report @ stderr clean_report)
   \<and> msg_no_issues \<notin> set (printed (snd (main env_restore_fault start)))
   \<and> msg_failed \<in> set (printed (snd (main env_restore_fault start)))"
  by (simp add: main_def run_semgrep_scan_def find_usr_bin env_restore_fault_def build_scan_cmd
      try_block_def os_getcwd_def os_chdir_def subprocess_run_def machine_sel start_def Let_def
      clean_report_def fault_result_def print_banner_def print_lines_machine command_lines_def
      summary_lines_def footer_lines_def ending_of_def
      os_popen_read_def results_marker_def msg_no_issues_def msg_failed_def scan_cmd_def
      del: print_lines.simps)

text \<open>
  C9, amended. In every run with a target path that exists in which no \<^verbatim>\<open>print\<close> raises
  an exception, an executable is found, \<^verbatim>\<open>os.getcwd\<close> and the \<^verbatim>\<open>os.chdir\<close> into the
  project raise nothing, \<^verbatim>\<open>subprocess.run\<close> returns a completed process with exit
  code 0 (the scan has ended within its timeout and its output was decoded to text), and the
  \<^verbatim>\<open>os.chdir\<close> back to the starting directory raises nothing, the driver ends by
  returning from \<open>main\<close> and prints, after the command and the combined output, the line
  that the scan completed and then the line that security issues were found if the combined
  output contains the results marker, and otherwise the line that no security issues were
  found.
\<close>

theorem main_summary:
  assumes "1 < length (argv e)" and "path_exists e (argv e ! 1)"
    and "stdout_fault e = (\<lambda>l. None)"
    and "find_system_semgrep e (snd (print_banner e (argv e ! 1) s)) = (Inr (Some semgrep_path), s1)"
    and "cwd_fault e (cwd s1) = None"
    and "enter_dir e (cwd s1) (argv e ! 1) = Inr d"
    and "run_proc e (build_cmd semgrep_path default_configs (argv e ! 1)) 300 d = Inr r"
    and "returncode r = 0"
    and "enter_dir e d (cwd s1) = Inr d0"
  shows "fst (main e s) = Returned
         \<and> printed (snd (main e s)) =
           printed s1 @
           [''Command: '' @ join '' '' (build_cmd semgrep_path default_configs (argv e ! 1)), [],
            stdout r @ stderr r, [], msg_completed,
            if contains results_marker (stdout r @ stderr r) then msg_issues_found else msg_no_issues,
            [], ''=================================================='',
            ''End of Semgrep Scan Report'', ''=================================================='']"
proof -
  obtain sb where b: "print_banner e (argv e ! 1) s = (None, sb)"
    by (simp add: print_banner_def print_lines_ok [OF assms(3)] os_popen_read_def
        del: print_lines.simps)
  with assms(4) have f: "find_system_semgrep e sb = (Inr (Some semgrep_path), s1)" by simp
  show ?thesis
    using scan_normal_path [OF f assms(5,6,7,9)] assms(1,2,8) b
      join_build_cmd_nonempty [of semgrep_path default_configs "argv e ! 1"]
    by (simp add: main_def Let_def print_lines_ok [OF assms(3)] command_lines_def
        summary_lines_def footer_lines_def ending_of_def completed_result_def
        del: print_lines.simps)
qed

theorem main_summary_witness:
  "fst (main env_clean start) = Returned
   \<and> printed (snd (main env_clean start)) =
     printed (snd (print_banner env_clean ''/proj'' start)) @
     [''Command: /usr/bin/semgrep scan --config=p/swift --config=p/owasp-top-ten --config=p/secrets --json --verbose /proj'',
      [], ''{}'', [], msg_completed, msg_no_issues,
      [], ''=================================================='',
      ''End of Semgrep Scan Report'', ''=================================================='']"
  using main_summary [where e = env_clean and s = start and semgrep_path = "''/usr/bin/semgrep''"
      and ?s1.0 = "snd (print_banner env_clean ''/proj'' start)" and d = "''/proj''" and r = clean_report
      and ?d0.0 = "''/home/dev''"]
  by (simp add: find_usr_bin env_clean_def build_scan_cmd print_banner_cwd machine_sel)
    (simp add: start_def scan_cmd_def clean_report_def results_marker_def)

text \<open>
  C10, at a run the code can meet. The target path \<^verbatim>\<open>/proj\<close> exists, none of the four
  candidate paths is an executable file, and starting the lookup \<^verbatim>\<open>which semgrep\<close>
  raises \<^verbatim>\<open>PermissionError\<close>. The \<^verbatim>\<open>except\<close> clause of the lookup passes over
  \<^verbatim>\<open>FileNotFoundError\<close> and two more, the \<^verbatim>\<open>try\<close> block of \<open>run_semgrep_scan\<close>
  catches every \<^verbatim>\<open>Exception\<close>, but the lookup stands before that block: nothing catches
  the exception, and the process ends with status 1 after the banner, where status 0 is
  specified for every target path that exists.
\<close>

theorem main_lookup_exception_status:
  "path_exists env_lookup_exception (argv env_lookup_exception ! 1)
   \<and> fst (main env_lookup_exception start) = Uncaught (OtherException ''[Errno 13] Permission denied'')
   \<and> exit_status (fst (main env_lookup_exception start)) = 1"
  by (simp add: main_def run_semgrep_scan_def find_system_semgrep_def env_lookup_exception_def
      machine_def possible_paths_def is_executable_file_def subprocess_run_def Let_def
      print_banner_def print_def os_popen_read_def start_def)

text \<open>
  The same ending on a standard output that cannot encode the first line of the banner:
  the target path exists and \<^verbatim>\<open>/usr/bin/semgrep\<close> is an executable file, the first
  \<^verbatim>\<open>print\<close> raises \<^verbatim>\<open>UnicodeEncodeError\<close>, and the process ends with status 1 before
  it has started a child process.
\<close>

lemma main_print_fault_status:
  "path_exists env_ascii_stdout (argv env_ascii_stdout ! 1)
   \<and> main env_ascii_stdout start = (Uncaught (OtherException ''UnicodeEncodeError''), start)
   \<and> exit_status (fst (main env_ascii_stdout start)) = 1"
  by (simp add: main_def env_ascii_stdout_def env_clean_def machine_def print_banner_def
      print_def start_def)

text \<open>
  With a target path that does not exist the process ends with status 1, whether the
  \<^verbatim>\<open>print\<close> of the message raises or not, and it has started no child process.
\<close>

lemma main_no_target:
  assumes "1 < length (argv e)" and "\<not> path_exists e (argv e ! 1)"
  shows "exit_status (fst (main e s)) = 1" and "spawned (snd (main e s)) = spawned s"
  using assms by (simp_all add: main_def ending_of_def print_def Let_def split: option.splits)

section \<open>Properties of the manifest patcher\<close>

lemma split_from_no_sep:
  "c \<notin> set s \<Longrightarrow> split_from [c] acc s = [rev acc @ s]"
  by (induction s arbitrary: acc) auto

lemma split_from_sep:
  "c \<notin> set a \<Longrightarrow> split_from [c] acc (a @ c # b) = (rev acc @ a) # split_from [c] [] b"
  by (induction a arbitrary: acc) auto

lemma split_str_no_sep: "c \<notin> set s \<Longrightarrow> split_str [c] s = [s]"
  by (simp add: split_str_def split_from_no_sep)

lemma split_str_sep: "c \<notin> set a \<Longrightarrow> split_str [c] (a @ c # b) = a # split_str [c] b"
  by (simp add: split_str_def split_from_sep)

lemma hex_digit_cases:
  assumes "n < 16"
  shows "hex_digit n \<in> set ''0123456789abcdef''"
  unfolding hex_digit_def using assms by (intro nth_mem) simp

lemma nibble_less: "unat ((w :: 128 word) AND 15) < 16"
proof -
  have "w AND 15 \<le> 15" by (rule word_and_le1)
  then have "unat (w AND 15) \<le> unat (15 :: 128 word)" by (simp add: word_le_nat_alt)
  then show ?thesis by simp
qed

lemma length_hex32: "length (hex32 w) = 32"
  by (simp add: hex32_def)

lemma set_hex32: "set (hex32 w) \<subseteq> set ''0123456789abcdef''"
  unfolding hex32_def using hex_digit_cases [OF nibble_less] by auto

lemma dash_not_hex32: "CHR ''-'' \<notin> set (hex32 w)"
  using set_hex32 [of w] by auto

lemma take_pieces:
  "take 8 h @ take 4 (drop 8 h) @ take 4 (drop 12 h) @ take 4 (drop 16 h) @ drop 20 h = (h :: 'a list)"
proof -
  have "take 4 (drop 16 h) @ drop 20 h = drop 16 h"
    using append_take_drop_id [of 4 "drop 16 h"] by simp
  moreover have "take 4 (drop 12 h) @ drop 16 h = drop 12 h"
    using append_take_drop_id [of 4 "drop 12 h"] by simp
  moreover have "take 4 (drop 8 h) @ drop 12 h = drop 8 h"
    using append_take_drop_id [of 4 "drop 8 h"] by simp
  ultimately show ?thesis by simp
qed

lemma replace_uuid_str: "replace ''-'' [] (uuid_str w) = hex32 w"
proof -
  define h where "h = hex32 w"
  have d: "CHR ''-'' \<notin> set (take n h)" "CHR ''-'' \<notin> set (drop n h)"
    "CHR ''-'' \<notin> set (take n (drop m h))" for n m
    using dash_not_hex32 [of w] unfolding h_def
    by (auto dest: in_set_takeD in_set_dropD)
  have "split_str ''-'' (uuid_str w) =
      [take 8 h, take 4 (drop 8 h), take 4 (drop 12 h), take 4 (drop 16 h), drop 20 h]"
    unfolding uuid_str_def Let_def h_def [symmetric]
    by (simp add: split_str_sep split_str_no_sep d)
  then show ?thesis using take_pieces [of h] by (simp add: replace_def h_def)
qed

lemma upper_hex_digits: "map to_upper ''0123456789abcdef'' = ''0123456789ABCDEF''"
  by code_simp


lemma new_id_eq: "new_id r = map to_upper (take 24 (hex32 (uuid4 r)))"
  by (simp add: new_id_def replace_uuid_str upper_def take_map)



lemma bit_4_word: "bit (4 :: 128 word) n \<longleftrightarrow> n = 2"
proof -
  have "(4 :: 128 word) = 2 ^ 2" by simp
  then show ?thesis by (simp only: bit_exp_iff) auto
qed

lemma bit_4_int: "bit (4 :: int) n \<longleftrightarrow> n = 2"
proof -
  have "(4 :: int) = 2 ^ 2" by simp
  then show ?thesis by (simp only: bit_exp_iff) auto
qed

lemma bit_15_int: "bit (15 :: int) n \<longleftrightarrow> n < 4"
proof -
  have "(15 :: int) = mask 4" by (simp add: mask_eq_exp_minus_1)
  then show ?thesis by (simp only: bit_mask_iff) auto
qed

lemma bit_not_15_int: "bit (4503599627370480 :: int) n \<longleftrightarrow> 4 \<le> n \<and> n < 52"
proof -
  have "(4503599627370480 :: int) = push_bit 4 (mask 48)"
    by (simp add: mask_eq_exp_minus_1 push_bit_eq_mult)
  then show ?thesis by (simp only: bit_push_bit_iff bit_mask_iff) auto
qed

lemma version_nibble: "drop_bit 76 (uuid4 r) AND 15 = 4"
  apply (rule bit_word_eqI)
  apply (simp add: uuid4_def bit_simps bit_4_word bit_4_int bit_15_int bit_not_15_int)
  apply auto
  done

lemma new_id_version: "new_id r ! 12 = CHR ''4''"
proof -
  have "hex32 (uuid4 r) ! 12 = hex_digit (unat (drop_bit 76 (uuid4 r) AND 15))"
    by (simp add: hex32_def)
  then show ?thesis
    using upper_hex_digits by (simp add: new_id_eq length_hex32 version_nibble hex_digit_def)
qed







lemma split_from_not_Nil: "split_from sep acc s \<noteq> []"
  by (induction sep acc s rule: split_from.induct) auto

lemma join_Cons: "join sep (x # xs) = x @ (if xs = [] then [] else sep @ join sep xs)"
  by (cases xs) simp_all

lemma join_snoc: "xs \<noteq> [] \<Longrightarrow> join sep (xs @ [e]) = join sep xs @ sep @ e"
  by (induction xs) (auto simp add: join_Cons)

lemma join_split_from: "join sep (split_from sep acc s) = rev acc @ s"
proof (induction sep acc s rule: split_from.induct)
  case (1 sep acc)
  show ?case by simp
next
  case (2 sep acc c cs)
  show ?case
  proof (cases "sep \<noteq> [] \<and> prefix sep (c # cs)")
    case True
    then have e: "sep @ drop (length sep) (c # cs) = c # cs"
      by (metis append_eq_conv_conj prefixE)
    from True have "split_from sep acc (c # cs) =
        rev acc # split_from sep [] (drop (length sep) (c # cs))"
      by simp
    then have "join sep (split_from sep acc (c # cs)) =
        rev acc @ sep @ join sep (split_from sep [] (drop (length sep) (c # cs)))"
      by (simp add: join_Cons split_from_not_Nil)
    also have "join sep (split_from sep [] (drop (length sep) (c # cs))) = drop (length sep) (c # cs)"
      using 2(1) [OF True] by simp
    finally show ?thesis using e by simp
  next
    case False
    with 2(2) show ?thesis by auto
  qed
qed

lemma join_split_str: "join sep (split_str sep s) = s"
  by (simp add: split_str_def join_split_from)

lemma join_split_snoc: "join sep (split_str sep s @ [e]) = s @ sep @ e"
  by (simp add: join_snoc split_str_def split_from_not_Nil join_split_from)

lemma lex_le_refl: "lex_le xs xs"
  by (induction xs) auto

lemma bt_sound_aux:
  "(bt items s = Some ps \<longrightarrow> split_of items ps s)"
  "(bt_plus items taken rest = Some ps \<longrightarrow>
      (\<exists>p ps' r'. ps = p # ps' \<and> p \<noteq> [] \<and> p @ r' = rev taken @ rest \<and> prefix p (rev taken)
         \<and> split_of items ps' r'))"
proof (induction items s and items taken rest arbitrary: ps and ps rule: bt_bt_plus.induct)
  case (1 s)
  show ?case by (simp add: split_of_def)
next
  case (2 l items s)
  show ?case
  proof
    assume a: "bt (Lit l # items) s = Some ps"
    then have pl: "prefix l s" by (simp split: if_splits)
    with a obtain ps' where ps: "ps = l # ps'" and b: "bt items (drop (length l) s) = Some ps'"
      by auto
    from 2 [OF pl] b have "split_of items ps' (drop (length l) s)" by simp
    moreover from pl have "s = l @ drop (length l) s"
      by (metis append_eq_conv_conj prefixE)
    ultimately show "split_of (Lit l # items) ps s"
      unfolding split_of_def ps by (metis append_assoc concat.simps(2) fits.simps(1) list.rel_inject(2) same_prefix_prefix)
  qed
next
  case (3 cls items s)
  show ?case
  proof
    assume a: "bt (Plus cls # items) s = Some ps"
    with 3 obtain p ps' r' where ps: "ps = p # ps'" and p: "p \<noteq> []"
      and e: "p @ r' = takeWhile cls s @ dropWhile cls s" and pp: "prefix p (takeWhile cls s)"
      and sp: "split_of items ps' r'"
      by fastforce
    from pp have "\<forall>x \<in> set p. cls x"
      by (metis prefix_def set_takeWhileD set_append UnI1)
    moreover from e have "s = p @ r'" by simp
    ultimately show "split_of (Plus cls # items) ps s"
      using p sp unfolding split_of_def ps by auto
  qed
next
  case (4 items rest)
  show ?case by simp
next
  case (5 items c taken rest)
  show ?case
  proof
    assume a: "bt_plus items (c # taken) rest = Some ps"
    show "\<exists>p ps' r'. ps = p # ps' \<and> p \<noteq> [] \<and> p @ r' = rev (c # taken) @ rest
        \<and> prefix p (rev (c # taken)) \<and> split_of items ps' r'"
    proof (cases "bt items rest")
      case None
      with a have "bt_plus items taken (c # rest) = Some ps" by simp
      with 5(2) [OF None] obtain p ps' r' where "ps = p # ps'" "p \<noteq> []"
        "p @ r' = rev taken @ c # rest" "prefix p (rev taken)" "split_of items ps' r'"
        by blast
      then show ?thesis by (auto simp add: prefix_def)
    next
      case (Some ps')
      with a have "ps = rev (c # taken) # ps'" by simp
      moreover from 5(1) Some have "split_of items ps' rest" by simp
      ultimately show ?thesis by auto
    qed
  qed
qed

lemma bt_sound: "bt items s = Some ps \<Longrightarrow> split_of items ps s"
  using bt_sound_aux(1) by blast

lemma prefix_takeWhile:
  assumes "prefix q s" and "\<forall>x \<in> set q. cls x"
  shows "prefix q (takeWhile cls s)"
proof -
  from assms(1) obtain r where "s = q @ r" by (auto simp add: prefix_def)
  with assms(2) show ?thesis by (simp add: takeWhile_append2)
qed

lemma bt_complete_aux:
  "(\<forall>qs. split_of items qs s \<longrightarrow>
      (\<exists>ps. bt items s = Some ps \<and> lex_le (map length qs) (map length ps)))"
  "(\<forall>q qs. q \<noteq> [] \<and> prefix q (rev taken) \<and> split_of items qs (drop (length q) (rev taken @ rest)) \<longrightarrow>
      (\<exists>p ps. bt_plus items taken rest = Some (p # ps)
         \<and> lex_le (length q # map length qs) (length p # map length ps)))"
proof (induction items s and items taken rest rule: bt_bt_plus.induct)
  case (1 s)
  show ?case by (auto simp add: split_of_def)
next
  case (2 l items s)
  show ?case
  proof (intro allI impI)
    fix qs assume a: "split_of (Lit l # items) qs s"
    then obtain qs' where qs: "qs = l # qs'" and f: "list_all2 fits items qs'"
      and p: "prefix (l @ concat qs') s"
      by (auto simp add: split_of_def list_all2_Cons1)
    from p have pl: "prefix l s" by (auto simp add: prefix_def)
    from p have "prefix (concat qs') (drop (length l) s)"
      by (auto simp add: prefix_def)
    with f have "split_of items qs' (drop (length l) s)" by (simp add: split_of_def)
    with 2 [OF pl] obtain ps where "bt items (drop (length l) s) = Some ps"
      "lex_le (map length qs') (map length ps)" by blast
    with pl qs show "\<exists>ps. bt (Lit l # items) s = Some ps \<and> lex_le (map length qs) (map length ps)"
      by simp
  qed
next
  case (3 cls items s)
  show ?case
  proof (intro allI impI)
    fix qs assume a: "split_of (Plus cls # items) qs s"
    then obtain q qs' where qs: "qs = q # qs'" and q: "q \<noteq> []" "\<forall>x \<in> set q. cls x"
      and f: "list_all2 fits items qs'" and p: "prefix (q @ concat qs') s"
      by (auto simp add: split_of_def list_all2_Cons1)
    from p have pq: "prefix q s" by (auto simp add: prefix_def)
    from p have "prefix (concat qs') (drop (length q) s)" by (auto simp add: prefix_def)
    with f have "split_of items qs' (drop (length q) (rev (rev (takeWhile cls s)) @ dropWhile cls s))"
      by (simp add: split_of_def)
    moreover from prefix_takeWhile [OF pq q(2)] have "prefix q (rev (rev (takeWhile cls s)))" by simp
    ultimately obtain p' ps where "bt_plus items (rev (takeWhile cls s)) (dropWhile cls s) = Some (p' # ps)"
      "lex_le (length q # map length qs') (length p' # map length ps)"
      using 3 q(1) by blast
    with qs show "\<exists>ps. bt (Plus cls # items) s = Some ps \<and> lex_le (map length qs) (map length ps)"
      by simp
  qed
next
  case (4 items rest)
  show ?case by simp
next
  case (5 items c taken rest)
  show ?case
  proof (intro allI impI)
    fix q qs
    assume a: "q \<noteq> [] \<and> prefix q (rev (c # taken))
        \<and> split_of items qs (drop (length q) (rev (c # taken) @ rest))"
    show "\<exists>p ps. bt_plus items (c # taken) rest = Some (p # ps)
        \<and> lex_le (length q # map length qs) (length p # map length ps)"
    proof (cases "q = rev (c # taken)")
      case True
      with a have "split_of items qs rest" by simp
      with 5(1) obtain ps where "bt items rest = Some ps" "lex_le (map length qs) (map length ps)"
        by blast
      with True show ?thesis by simp
    next
      case False
      with a have pq: "prefix q (rev taken)" by (auto simp add: prefix_snoc)
      from a False obtain r where r: "rev (c # taken) = q @ r" "r \<noteq> []"
        by (auto simp add: prefix_def)
      from r(1) have "length (rev (c # taken)) = length q + length r"
        by (metis length_append)
      with r(2) have lt: "length q < Suc (length taken)" by simp
      show ?thesis
      proof (cases "bt items rest")
        case (Some ps)
        with lt show ?thesis by simp
      next
        case None
        from a have "split_of items qs (drop (length q) (rev taken @ c # rest))" by simp
        with 5(2) [OF None] a pq obtain p ps where "bt_plus items taken (c # rest) = Some (p # ps)"
          "lex_le (length q # map length qs) (length p # map length ps)" by blast
        with None show ?thesis by simp
      qed
    qed
  qed
qed

lemma bt_complete:
  "split_of items qs s \<Longrightarrow> \<exists>ps. bt items s = Some ps \<and> lex_le (map length qs) (map length ps)"
  using bt_complete_aux(1) by blast

lemma contains_iff: "contains n s \<longleftrightarrow> (\<exists>pre suf. s = pre @ suf \<and> prefix n suf)"
proof (induction s)
  case Nil
  show ?case by auto
next
  case (Cons c cs)
  show ?case
  proof
    assume "contains n (c # cs)"
    then consider "prefix n (c # cs)" | "contains n cs" by auto
    then show "\<exists>pre suf. c # cs = pre @ suf \<and> prefix n suf"
    proof cases
      case 1
      then show ?thesis by (metis append_Nil)
    next
      case 2
      with Cons obtain pre suf where "cs = pre @ suf" "prefix n suf" by blast
      then show ?thesis by (metis append_Cons)
    qed
  next
    assume "\<exists>pre suf. c # cs = pre @ suf \<and> prefix n suf"
    then obtain pre suf where e: "c # cs = pre @ suf" and p: "prefix n suf" by blast
    show "contains n (c # cs)"
    proof (cases pre)
      case Nil
      with e have "suf = c # cs" by simp
      with p show ?thesis by simp
    next
      case (Cons d pre')
      with e have "cs = pre' @ suf" by simp
      with p Cons.IH show ?thesis by auto
    qed
  qed
qed

lemma split_from_pieces:
  assumes "sep \<noteq> []"
    and "\<forall>pre suf. rev acc = pre @ suf \<and> suf \<noteq> [] \<longrightarrow> \<not> prefix sep (suf @ s)"
  shows "\<forall>piece \<in> set (split_from sep acc s). \<not> contains sep piece"
  using assms
proof (induction sep acc s rule: split_from.induct)
  case (1 sep acc)
  have "\<not> contains sep (rev acc)"
  proof
    assume "contains sep (rev acc)"
    then obtain pre suf where e: "rev acc = pre @ suf" and p: "prefix sep suf"
      by (auto simp add: contains_iff)
    with 1(1) have "suf \<noteq> []" by auto
    with 1(2) e p show False by auto
  qed
  then show ?case by simp
next
  case (2 sep acc c cs)
  have first: "\<not> contains sep (rev acc)"
  proof
    assume "contains sep (rev acc)"
    then obtain pre suf where e: "rev acc = pre @ suf" and p: "prefix sep suf"
      by (auto simp add: contains_iff)
    with 2(3) have "suf \<noteq> []" by auto
    moreover from p have "prefix sep (suf @ c # cs)" by (simp add: prefix_prefix)
    ultimately show False using 2(4) e by blast
  qed
  show ?case
  proof (cases "prefix sep (c # cs)")
    case True
    with 2(1) 2(3) have "\<forall>piece \<in> set (split_from sep [] (drop (length sep) (c # cs))). \<not> contains sep piece"
      by simp
    with True 2(3) first show ?thesis by simp
  next
    case False
    have "\<forall>pre suf. rev (c # acc) = pre @ suf \<and> suf \<noteq> [] \<longrightarrow> \<not> prefix sep (suf @ cs)"
    proof (intro allI impI)
      fix pre suf assume a: "rev (c # acc) = pre @ suf \<and> suf \<noteq> []"
      then obtain suf' where s: "suf = suf' @ [c]" and e: "rev acc = pre @ suf'"
        by (metis append_assoc butlast_append butlast_snoc last_appendR last_snoc rev.simps(2) snoc_eq_iff_butlast)
      show "\<not> prefix sep (suf @ cs)"
      proof (cases "suf' = []")
        case True
        with s False show ?thesis by simp
      next
        case False
        with 2(4) e have "\<not> prefix sep (suf' @ c # cs)" by blast
        with s show ?thesis by simp
      qed
    qed
    with 2(2) 2(3) False show ?thesis by simp
  qed
qed

lemma split_str_pieces:
  "sep \<noteq> [] \<Longrightarrow> piece \<in> set (split_str sep s) \<Longrightarrow> \<not> contains sep piece"
  using split_from_pieces [of sep "[]" s] by (simp add: split_str_def)

lemma split_from_two:
  "sep \<noteq> [] \<Longrightarrow> contains sep s \<Longrightarrow> 2 \<le> length (split_from sep acc s)"
proof (induction s arbitrary: acc)
  case Nil
  then show ?case by simp
next
  case (Cons c cs)
  show ?case
  proof (cases "prefix sep (c # cs)")
    case True
    with Cons.prems(1) have "split_from sep acc (c # cs) =
        rev acc # split_from sep [] (drop (length sep) (c # cs))" by simp
    moreover have "1 \<le> length (split_from sep [] (drop (length sep) (c # cs)))"
      using split_from_not_Nil [of sep "[]" "drop (length sep) (c # cs)"]
      by (cases "split_from sep [] (drop (length sep) (c # cs))") simp_all
    ultimately show ?thesis by simp
  next
    case False
    with Cons.prems(2) have "contains sep cs" by simp
    from Cons.IH [OF Cons.prems(1) this] False show ?thesis by simp
  qed
qed

lemma is_group_line_never: "is_group_line line = False"
proof (cases "contains ''/*'' line")
  case False
  then show ?thesis by (simp add: is_group_line_def)
next
  case True
  then have "2 \<le> length (split_str ''/*'' line)"
    using split_from_two [of "''/*''" line "[]"] by (simp add: split_str_def)
  then have "split_str ''/*'' line ! 1 \<in> set (split_str ''/*'' line)" by simp
  then have "\<not> contains ''/*'' (split_str ''/*'' line ! 1)"
    using split_str_pieces [of "''/*''"] by blast
  then show ?thesis by (simp add: is_group_line_def)
qed

lemma last_group_line_never: "last_group_line lines i found = found"
  by (induction lines arbitrary: i found) (simp_all add: is_group_line_never)

lemma add_resources_to_main_group_eq:
  "add_resources_to_main_group gid [g1, g2, g3] = g1 @ g2 @ [NL] @ resources_entry gid @ g3"
  by (simp add: add_resources_to_main_group_def Let_def last_group_line_never join_split_snoc NL_def)







lemma contains_sublist: "contains n s \<longleftrightarrow> sublist n s"
  by (auto simp add: contains_iff sublist_def prefix_def)




lemma bt_Lit_first:
  assumes "bt (Lit l # items) s = Some ps"
  shows "\<exists>ps'. ps = l # ps' \<and> length ps' = length items"
  using bt_sound [OF assms] by (auto simp add: split_of_def list_all2_Cons1 dest: list_all2_lengthD)


lemma main_group_match_nonempty:
  assumes "re_match main_group_pattern s = Some gs"
  shows "concat gs \<noteq> []"
proof -
  from assms obtain ps where b: "bt (concat main_group_pattern) s = Some ps"
    and g: "gs = regroup (map length main_group_pattern) ps"
    by (auto simp add: re_match_def)
  from b obtain ps' where "ps = begin_group_marker # ps'"
    using bt_Lit_first by (fastforce simp add: main_group_pattern_def)
  with g show ?thesis
    by (simp add: main_group_pattern_def begin_group_marker_def)
qed




lemma lex_le_strict:
  "length xs = length ys \<Longrightarrow> a < b \<Longrightarrow> \<not> lex_le (pre @ b # xs) (pre @ a # ys)"
  by (induction pre) auto

lemma fits_brace_free:
  "brace_free a \<Longrightarrow> fits a p \<Longrightarrow> CHR ''}'' \<notin> set p"
  by (cases a) auto

lemma split_brace_free:
  "list_all2 fits items ps \<Longrightarrow> \<forall>a \<in> set items. brace_free a \<Longrightarrow> CHR ''}'' \<notin> set (concat ps)"
  by (induction items ps rule: list_all2_induct) (auto dest: fits_brace_free)

lemma first_occurrence:
  assumes "u @ c # r = u' @ c # r'" and "c \<notin> set u" and "c \<notin> set u'"
  shows "u = u' \<and> r = r'"
  using assms
proof (induction u arbitrary: u')
  case Nil
  then show ?case by (cases u') auto
next
  case (Cons a u)
  then show ?case by (cases u') auto
qed

lemma space_not_brace: "is_space c \<Longrightarrow> c \<noteq> CHR ''}''"
  by (auto simp add: is_space_def)

lemma tail_match:
  fixes pre :: "atom list"
  assumes bf: "\<forall>a \<in> set pre. brace_free a"
    and v: "list_all2 fits (pre @ [Plus not_brace]) qs"
    and w: "is_space w"
    and z: "z \<noteq> []" "CHR ''}'' \<notin> set z" "\<not> sublist '');'' z"
  shows "\<exists>ps. bt (pre @ [Plus not_brace, Plus is_space, Lit '');'', Plus not_brace, Lit ''};''])
               (concat qs @ [w] @ '');'' @ z @ ''};'' @ rest) = Some (ps @ [[w], '');'', z, ''};''])
           \<and> length ps = length pre + 1 \<and> concat ps = concat qs"
proof -
  define items where
    "items = pre @ [Plus not_brace, Plus is_space, Lit '');'', Plus not_brace, Lit ''};'']"
  define s where "s = concat qs @ [w] @ '');'' @ z @ ''};'' @ rest"
  have items_eq: "items = (pre @ [Plus not_brace]) @ [Plus is_space, Lit '');'', Plus not_brace, Lit ''};'']"
    by (simp add: items_def)
  have bf': "\<forall>a \<in> set (pre @ [Plus not_brace]). brace_free a"
    using bf by (simp add: not_brace_def)
  have tailfits: "list_all2 fits [Plus is_space, Lit '');'', Plus not_brace, Lit ''};'']
      [[w], '');'', z, ''};'']"
    using w z by (auto simp add: not_brace_def)
  have "split_of items (qs @ [[w], '');'', z, ''};'']) s"
    unfolding split_of_def items_eq s_def using list_all2_appendI [OF v tailfits] by simp
  from bt_complete [OF this] obtain P where bP: "bt items s = Some P" by blast
  have le: "lex_le (map length Q) (map length P)" if "split_of items Q s" for Q
    using bt_complete [OF that] bP by auto
  from bt_sound [OF bP] have Pf: "list_all2 fits items P" and Pp: "prefix (concat P) s"
    by (simp_all add: split_of_def)
  from Pf have "\<exists>us vs. P = us @ vs \<and> length us = length (pre @ [Plus not_brace])
      \<and> length vs = length [Plus is_space, Lit '');'', Plus not_brace, Lit ''};'']
      \<and> list_all2 fits (pre @ [Plus not_brace]) us
      \<and> list_all2 fits [Plus is_space, Lit '');'', Plus not_brace, Lit ''};''] vs"
    unfolding items_eq by (simp only: list_all2_append1)
  then obtain ps tl4 where P: "P = ps @ tl4" and psf: "list_all2 fits (pre @ [Plus not_brace]) ps"
    and tlf: "list_all2 fits [Plus is_space, Lit '');'', Plus not_brace, Lit ''};''] tl4"
    by blast
  from tlf obtain p6 p7 where tl4: "tl4 = [p6, '');'', p7, ''};'']"
    and p6: "p6 \<noteq> []" "\<forall>x \<in> set p6. is_space x" and p7: "p7 \<noteq> []" "\<forall>x \<in> set p7. not_brace x"
    by (auto simp add: list_all2_Cons1)
  from psf have "\<exists>us vs. ps = us @ vs \<and> length us = length pre
      \<and> length vs = length [Plus not_brace]
      \<and> list_all2 fits pre us \<and> list_all2 fits [Plus not_brace] vs"
    by (simp only: list_all2_append1)
  then obtain ps0 p5 where ps: "ps = ps0 @ [p5]" and ps0f: "list_all2 fits pre ps0"
    and p5: "p5 \<noteq> []" "\<forall>x \<in> set p5. not_brace x"
    by (auto simp add: list_all2_Cons1)
  have lenps: "length ps = length pre + 1"
    using psf by (auto dest: list_all2_lengthD)
  from Pp obtain r' where "s = concat P @ r'" by (auto simp add: prefix_def)
  then have stext: "(concat ps @ p6 @ '');'' @ p7) @ CHR ''}'' # ('';'' @ r') =
      (concat qs @ [w] @ '');'' @ z) @ CHR ''}'' # ('';'' @ rest)"
    by (simp add: P tl4 s_def)
  have b1: "CHR ''}'' \<notin> set (concat ps @ p6 @ '');'' @ p7)"
    using split_brace_free [OF psf bf'] p6(2) p7(2) space_not_brace by (auto simp add: not_brace_def)
  have b2: "CHR ''}'' \<notin> set (concat qs @ [w] @ '');'' @ z)"
    using split_brace_free [OF v bf'] w z(2) space_not_brace by auto
  from first_occurrence [OF stext b1 b2]
  have span: "(concat ps @ p6 @ '');'') @ p7 = (concat qs @ [w] @ '');'') @ z" by simp
  have better: False
    if e: "concat ps0 @ big @ [w] @ '');'' @ z = concat ps @ p6 @ '');'' @ p7"
      and big: "length p5 < length big" "\<forall>x \<in> set big. not_brace x" for big
  proof -
    define Q where "Q = (ps0 @ [big]) @ [[w], '');'', z, ''};'']"
    from big have "fits (Plus not_brace) big" by auto
    with ps0f have "list_all2 fits (pre @ [Plus not_brace]) (ps0 @ [big])"
      by (simp add: list_all2_appendI)
    from list_all2_appendI [OF this tailfits] have "list_all2 fits items Q"
      by (simp add: Q_def items_eq)
    moreover have "concat Q = concat P"
      using e by (simp add: Q_def P tl4)
    ultimately have "split_of items Q s" using Pp by (simp add: split_of_def)
    from le [OF this] big(1)
      lex_le_strict [of "map length [[w], '');'', z, ''};'']" "map length [p6, '');'', p7, ''};'']"
        "length p5" "length big" "map length ps0"]
    show False by (simp add: Q_def P tl4 ps)
  qed
  from append_eq_append_conv2 [THEN iffD1, OF span] obtain t where
    t: "concat ps @ p6 @ '');'' = (concat qs @ [w] @ '');'') @ t \<and> t @ p7 = z
      \<or> (concat ps @ p6 @ '');'') @ t = concat qs @ [w] @ '');'' \<and> p7 = t @ z"
    by blast
  have "(t \<noteq> [] \<and> concat ps @ p6 @ '');'' = (concat qs @ [w] @ '');'') @ t \<and> t @ p7 = z)
      \<or> (t \<noteq> [] \<and> (concat ps @ p6 @ '');'') @ t = concat qs @ [w] @ '');'' \<and> p7 = t @ z)
      \<or> (concat ps @ p6 @ '');'' = concat qs @ [w] @ '');'' \<and> p7 = z)"
  proof (cases "t = []")
    case True
    with t show ?thesis by auto
  next
    case False
    with t show ?thesis by blast
  qed
  then consider
      (short) "t \<noteq> []" "concat ps @ p6 @ '');'' = (concat qs @ [w] @ '');'') @ t" "t @ p7 = z"
    | (long) "t \<noteq> []" "(concat ps @ p6 @ '');'') @ t = concat qs @ [w] @ '');''" "p7 = t @ z"
    | (same) "concat ps @ p6 @ '');'' = concat qs @ [w] @ '');''" "p7 = z"
    by blast
  then have fin: "p6 = [w] \<and> concat ps = concat qs \<and> p7 = z"
  proof cases
    case short
    from short(2) have "(concat ps @ p6) @ '');'' = (concat qs @ [w, CHR '')'', CHR '';'']) @ t"
      by simp
    then have False
    proof (cases t rule: rev_cases)
      case Nil
      with short(1) show False by simp
    next
      case (snoc t' c)
      show False
      proof (cases t' rule: rev_cases)
        case Nil
        with snoc short(2) show False by simp
      next
        case (snoc t'' c')
        with \<open>t = t' @ [c]\<close> short(2) have "t = t'' @ '');''" by simp
        with short(3) have "sublist '');'' z" by (auto simp add: sublist_def)
        with z(3) show False by simp
      qed
    qed
    then show ?thesis ..
  next
    case long
    have False
    proof (cases t rule: rev_cases)
      case Nil
      with long(1) show False by simp
    next
      case (snoc t' c)
      show False
      proof (cases t' rule: rev_cases)
        case Nil
        with snoc long(2) show False by simp
      next
        case (snoc t'' c')
        with \<open>t = t' @ [c]\<close> long(2) have t: "t = t'' @ '');''"
          and e: "concat ps @ p6 @ '');'' @ t'' = concat qs @ [w]" by simp_all
        show False
        proof (cases t'' rule: rev_cases)
          case Nil
          with e have "w = CHR '';''" by simp
          with w show False by (simp add: is_space_def)
        next
          case (snoc T c'')
          with e have c'': "c'' = w" by simp
          have "concat ps0 @ (p5 @ p6 @ '');'' @ T) @ [w] @ '');'' @ z = concat ps @ p6 @ '');'' @ p7"
            using long(3) t snoc c'' by (simp add: ps)
          moreover have "length p5 < length (p5 @ p6 @ '');'' @ T)" by simp
          moreover have "\<forall>x \<in> set (p5 @ p6 @ '');'' @ T). not_brace x"
            using p5(2) p6(2) p7(2) long(3) t snoc space_not_brace
            by (auto simp add: not_brace_def)
          ultimately show False by (rule better)
        qed
      qed
    qed
    then show ?thesis ..
  next
    case same
    from same(1) have e: "concat ps @ p6 = concat qs @ [w]" by simp
    show ?thesis
    proof (cases p6 rule: rev_cases)
      case Nil
      with p6(1) show ?thesis by simp
    next
      case (snoc p6' c)
      with e have c: "c = w" and e': "concat ps @ p6' = concat qs" by simp_all
      show ?thesis
      proof (cases "p6' = []")
        case True
        with snoc c e' same(2) show ?thesis by simp
      next
        case False
        have "concat ps0 @ (p5 @ p6') @ [w] @ '');'' @ z = concat ps @ p6 @ '');'' @ p7"
          using snoc c same(2) by (simp add: ps)
        moreover have "length p5 < length (p5 @ p6')" using False by simp
        moreover have "\<forall>x \<in> set (p5 @ p6'). not_brace x"
          using p5(2) p6(2) snoc space_not_brace by (auto simp add: not_brace_def)
        ultimately have False by (rule better)
        then show ?thesis ..
      qed
    qed
  qed
  with bP P tl4 lenps show ?thesis
    unfolding items_def s_def by auto
qed

lemma diverge_append: "\<not> prefix l s \<Longrightarrow> \<not> prefix s l \<Longrightarrow> \<not> prefix l (s @ u)"
  by (metis prefix_append prefix_same_cases prefix_order.order_refl append_prefixD prefix_def)

lemma clear_suffix:
  "clear l t \<Longrightarrow> t = pre @ suf \<Longrightarrow> suf \<noteq> [] \<Longrightarrow> \<not> prefix l (suf @ u)"
proof (induction t arbitrary: pre)
  case Nil
  then show ?case by simp
next
  case (Cons c cs)
  show ?case
  proof (cases pre)
    case Nil
    with Cons.prems have suf: "suf = c # cs" by simp
    from Cons.prems(1) have "\<not> prefix l (c # cs)" "\<not> prefix (c # cs) l" by simp_all
    from diverge_append [OF this] suf show ?thesis by simp
  next
    case (Cons d pre')
    with Cons.prems have "cs = pre' @ suf" "clear l cs" by simp_all
    with Cons.IH Cons.prems(3) show ?thesis by blast
  qed
qed

lemma clear_append: "clear l a \<Longrightarrow> clear l b \<Longrightarrow> clear l (a @ b)"
proof (induction a)
  case Nil
  then show ?case by simp
next
  case (Cons c a)
  then have "\<not> prefix l (c # a)" "\<not> prefix (c # a) l" "clear l (a @ b)" by simp_all
  moreover from this(1,2) have "\<not> prefix l ((c # a) @ b)" by (rule diverge_append)
  moreover from \<open>\<not> prefix (c # a) l\<close> have "\<not> prefix ((c # a) @ b) l"
    by (meson append_prefixD)
  ultimately show ?case by simp
qed

lemma clear_first: "l \<noteq> [] \<Longrightarrow> hd l \<notin> set t \<Longrightarrow> clear l t"
  by (induction t) (auto simp add: prefix_def neq_Nil_conv)

lemma re_match_Lit_fail:
  "\<not> prefix l s \<Longrightarrow> re_match ((Lit l # g) # gs) s = None"
  by (simp add: re_match_def)

lemma re_sub_skip:
  assumes "clear l t"
  shows "re_sub ((Lit l # g) # gs) repl (t @ u) st =
           (case re_sub ((Lit l # g) # gs) repl u st of (out, st') \<Rightarrow> (t @ out, st'))"
  using assms
proof (induction t)
  case Nil
  show ?case by (simp split: prod.splits)
next
  case (Cons c t)
  from Cons.prems have "\<not> prefix l (c # t)" "\<not> prefix (c # t) l" "clear l t" by simp_all
  from diverge_append [OF this(1,2)] have "re_match ((Lit l # g) # gs) (c # t @ u) = None"
    by (simp add: re_match_Lit_fail)
  with Cons.IH [OF \<open>clear l t\<close>] show ?case by (simp split: prod.splits)
qed

lemma re_sub_clear:
  "clear l t \<Longrightarrow> re_sub ((Lit l # g) # gs) repl t st = (t, st)"
  using re_sub_skip [of l t g gs repl "[]" st] by simp

lemma re_sub_hit:
  assumes "re_match pat (m @ u) = Some gs" and "concat gs = m" and "m \<noteq> []"
  shows "re_sub pat repl (m @ u) st =
           (case repl gs st of (r, st1) \<Rightarrow>
              (case re_sub pat repl u st1 of (out, st2) \<Rightarrow> (r @ out, st2)))"
proof -
  from assms(3) obtain c cs where e: "m @ u = c # cs" by (cases m) auto
  have d: "drop (length m) (c # cs) = u" using e [symmetric] by simp
  from assms have "re_sub pat repl (c # cs) st =
      (case repl gs st of (r, st1) \<Rightarrow>
        (case re_sub pat repl (drop (length m) (c # cs)) st1 of (out, st2) \<Rightarrow> (r @ out, st2)))"
    unfolding e by (simp del: concat_eq_Nil_conv)
  then show ?thesis unfolding d e .
qed

lemma re_sub_once:
  assumes "clear l pre" and "re_match ((Lit l # g) # gs) (m @ post) = Some grp"
    and "concat grp = m" and "m \<noteq> []" and "clear l post"
  shows "re_sub ((Lit l # g) # gs) repl (pre @ m @ post) st =
           (pre @ fst (repl grp st) @ post, snd (repl grp st))"
  using re_sub_skip [OF assms(1), of g gs repl "m @ post" st]
    re_sub_hit [OF assms(2,3,4), of repl st] re_sub_clear [OF assms(5), of g gs repl]
  by (simp split: prod.splits)

lemma re_sub_marker:
  assumes "clear l pre" and "l \<noteq> []" and "clear l post"
  shows "re_sub [[Lit l]] (\<lambda>gs st. (r, st)) (pre @ l @ post) () = (pre @ r @ post, ())"
proof -
  have "re_match [[Lit l]] (l @ post) = Some [l]" by (simp add: re_match_def)
  from re_sub_once [OF assms(1) this _ assms(2,3), of "\<lambda>gs st. (r, st)" "()"] show ?thesis by simp
qed

lemma regroup3:
  "length a = n \<Longrightarrow>
   regroup [n, 1, 4] ((a @ [b]) @ [w, d, z, e]) = [concat a, b, w @ d @ z @ e]"
  by simp

lemma group3_match:
  assumes "bt (pre @ [Plus not_brace, Plus is_space, Lit d, Plus not_brace, Lit e]) s =
             Some (ps @ [[w], d, z, e])"
    and "length ps = length pre + 1"
  shows "re_match [pre, [Plus not_brace], [Plus is_space, Lit d, Plus not_brace, Lit e]] s =
           Some [concat (butlast ps), last ps, [w] @ d @ z @ e]"
proof -
  from assms(2) have ne: "ps \<noteq> []" by auto
  then have ps: "ps = butlast ps @ [last ps]" by simp
  have l: "length (butlast ps) = length pre" using assms(2) by simp
  from regroup3 [OF l, of "last ps" "[w]" d z e]
  have "regroup [length pre, 1, 4] (ps @ [[w], d, z, e]) =
      [concat (butlast ps), last ps, [w] @ d @ z @ e]"
    unfolding ps [symmetric] by simp
  then have r: "regroup [length pre, 1, 4] (ps @ [[w], d, z, e]) =
      [concat (butlast ps), last ps, [w] @ d @ z @ e]" .
  have c: "concat [pre, [Plus not_brace], [Plus is_space, Lit d, Plus not_brace, Lit e]] =
      pre @ [Plus not_brace, Plus is_space, Lit d, Plus not_brace, Lit e]" by simp
  have m: "map length [pre, [Plus not_brace], [Plus is_space, Lit d, Plus not_brace, Lit e]] =
      [length pre, 1, 4]" by simp
  show ?thesis unfolding re_match_def c m assms(1) option.map r ..
qed

lemma block_match:
  assumes bf: "\<forall>a \<in> set pre. brace_free a"
    and v: "list_all2 fits (pre @ [Plus not_brace]) qs"
    and w: "is_space w"
    and z: "z \<noteq> []" "CHR ''}'' \<notin> set z" "\<not> contains '');'' z"
  shows "\<exists>g1 g2. re_match [pre, [Plus not_brace], [Plus is_space, Lit '');'', Plus not_brace, Lit ''};'']]
                   ((concat qs @ [w] @ '');'' @ z @ ''};'') @ post)
                 = Some [g1, g2, [w] @ '');'' @ z @ ''};''] \<and> g1 @ g2 = concat qs"
proof -
  from z(3) have "\<not> sublist '');'' z" by (simp add: contains_sublist)
  from tail_match [OF bf v w z(1,2) this, of post] obtain ps where
    b: "bt (pre @ [Plus not_brace, Plus is_space, Lit '');'', Plus not_brace, Lit ''};''])
          (concat qs @ [w] @ '');'' @ z @ ''};'' @ post) = Some (ps @ [[w], '');'', z, ''};''])"
    and l: "length ps = length pre + 1" and c: "concat ps = concat qs"
    by blast
  from l have "ps \<noteq> []" by auto
  then have "concat (butlast ps) @ last ps = concat ps"
    by (metis append_butlast_last_id concat.simps(1,2) concat_append append_Nil2)
  with group3_match [OF b l] c show ?thesis by simp
qed

lemma main_group_block_match:
  assumes "well_shaped m"
  shows "\<exists>g1 g2. re_match main_group_pattern (main_group_block m @ post) =
            Some [g1, g2, [children_close m] @ '');'' @ group_tail m @ ''};'']
          \<and> g1 @ g2 = concat [begin_group_marker, begin_space m, begin_text m, ''mainGroup = {'',
                group_attrs m, ''children = ('', children_space m, children m]"
proof -
  define pre where "pre = [Lit begin_group_marker, Plus is_space, Plus not_brace,
      Lit ''mainGroup = {'', Plus not_brace, Lit ''children = ('', Plus is_space]"
  define qs where "qs = [begin_group_marker, begin_space m, begin_text m, ''mainGroup = {'',
      group_attrs m, ''children = ('', children_space m, children m]"
  have bf: "\<forall>a \<in> set pre. brace_free a"
    by (simp add: pre_def begin_group_marker_def is_space_def not_brace_def)
  have v: "list_all2 fits (pre @ [Plus not_brace]) qs"
    using assms by (auto simp add: pre_def qs_def well_shaped_def spaces_def inner_def not_brace_def)
  from assms have w: "is_space (children_close m)"
    and z: "group_tail m \<noteq> []" "CHR ''}'' \<notin> set (group_tail m)" "\<not> contains '');'' (group_tail m)"
    by (simp_all add: well_shaped_def inner_def)
  have p: "main_group_pattern =
      [pre, [Plus not_brace], [Plus is_space, Lit '');'', Plus not_brace, Lit ''};'']]"
    by (simp add: main_group_pattern_def pre_def)
  have t: "main_group_block m @ post =
      (concat qs @ [children_close m] @ '');'' @ group_tail m @ ''};'') @ post"
    by (simp add: main_group_block_def qs_def)
  from block_match [OF bf v w z, of post] show ?thesis
    unfolding p t by (simp add: qs_def)
qed

lemma phase_block_match:
  assumes "well_shaped m"
  shows "\<exists>g1 g2. re_match resources_build_phase_pattern (phase_block m @ post) =
            Some [g1, g2, [files_close m] @ '');'' @ phase_tail m @ ''};'']
          \<and> g1 @ g2 = concat [resources_phase_header, phase_attrs m, ''files = ('',
                files_space m, files m]"
proof -
  define pre where "pre = [Lit resources_phase_header, Plus not_brace, Lit ''files = ('',
      Plus is_space]"
  define qs where "qs = [resources_phase_header, phase_attrs m, ''files = ('', files_space m, files m]"
  have bf: "\<forall>a \<in> set pre. brace_free a"
    by (simp add: pre_def resources_phase_header_def is_space_def not_brace_def)
  have v: "list_all2 fits (pre @ [Plus not_brace]) qs"
    using assms by (auto simp add: pre_def qs_def well_shaped_def spaces_def inner_def not_brace_def)
  from assms have w: "is_space (files_close m)"
    and z: "phase_tail m \<noteq> []" "CHR ''}'' \<notin> set (phase_tail m)" "\<not> contains '');'' (phase_tail m)"
    by (simp_all add: well_shaped_def inner_def)
  have p: "resources_build_phase_pattern =
      [pre, [Plus not_brace], [Plus is_space, Lit '');'', Plus not_brace, Lit ''};'']]"
    by (simp add: resources_build_phase_pattern_def pre_def)
  have t: "phase_block m @ post =
      (concat qs @ [files_close m] @ '');'' @ phase_tail m @ ''};'') @ post"
    by (simp add: phase_block_def qs_def)
  from block_match [OF bf v w z, of post] show ?thesis
    unfolding p t by (simp add: qs_def)
qed

subsection \<open>The claims on the patcher\<close>







end
